theory Spec2Isabelle
  imports Main "HOL-Library.Multiset" "HOL-Library.List_Lexorder" "HOL-Library.Char_ord"
begin

section \<open>Data model of the answer-reveal page\<close>

text \<open>
  The page \<^verbatim>\<open>src/pages/AdminAnswerRevealPage.tsx\<close> reads a game snapshot, the teams of
  the game, each team's processed answer and the cumulative scores, and derives two display
  lists: the answer board and the ranked leaderboard. Its button handler writes the next
  status of the game. JavaScript numbers that the page uses as scores, points and indices
  are integers here; an absent (\<^verbatim>\<open>null\<close>/\<^verbatim>\<open>undefined\<close>) value is \<open>None\<close>.

  Modelled from the spec: the types \<^verbatim>\<open>GameStatus\<close>, \<^verbatim>\<open>Team\<close>, \<^verbatim>\<open>TeamScore\<close>, \<^verbatim>\<open>Question\<close>,
  \<^verbatim>\<open>Game\<close> and the result of \<^verbatim>\<open>getTeamAnswerResult\<close> are declared in \<^verbatim>\<open>lib/firebase\<close>, which is
  not among the sources. Their fields here are the ones the page reads, typed as the data
  model of the specification types them; a field the page tests for absence is optional.
\<close>

datatype GameStatus =
  lobby | question_display | answer_reveal | leaderboard | break | game_end

record Team =
  team_id :: string
  name :: string
  mascotId :: int
  isActive :: "bool option"
  points :: int

record RankedTeam = Team +
  rank :: nat

record TeamScore =
  totalScore :: int

subsection \<open>\<^verbatim>\<open>Array.prototype.sort\<close> with a comparator\<close>

text \<open>
  The page sorts with \<^verbatim>\<open>array.sort((a, b) => ...)\<close>. The language fixes the result for a
  consistent comparator: the elements in non-decreasing comparator order, elements that
  compare equal in their original order (the sort is stable). Insertion from the right,
  placing an element in front of the first one it does not follow, computes that list.
\<close>

fun insert_by :: "('a \<Rightarrow> 'a \<Rightarrow> int) \<Rightarrow> 'a \<Rightarrow> 'a list \<Rightarrow> 'a list" where
  "insert_by cmp x [] = [x]"
| "insert_by cmp x (y # ys) =
     (if cmp x y \<le> 0 then x # y # ys else y # insert_by cmp x ys)"

fun js_sort :: "('a \<Rightarrow> 'a \<Rightarrow> int) \<Rightarrow> 'a list \<Rightarrow> 'a list" where
  "js_sort cmp [] = []"
| "js_sort cmp (x # xs) = insert_by cmp x (js_sort cmp xs)"

text \<open>
  A consistent comparator: swapping the arguments swaps the sign, and "not after" is
  transitive.
\<close>

definition consistent_cmp :: "('a \<Rightarrow> 'a \<Rightarrow> int) \<Rightarrow> bool" where
  "consistent_cmp cmp \<longleftrightarrow>
     (\<forall>a b. (cmp a b < 0) = (0 < cmp b a)) \<and>
     (\<forall>a b c. cmp a b \<le> 0 \<and> cmp b c \<le> 0 \<longrightarrow> cmp a c \<le> 0)"

subsection \<open>Leaderboard: scores, order and ranks\<close>

text \<open>
  \<^verbatim>\<open>points: allScores[team.id]?.totalScore || 0\<close>: the fetched total, and 0 when the team
  has no entry (or the total is the falsy number 0).
\<close>

definition fetchedPoints :: "(string \<rightharpoonup> TeamScore) \<Rightarrow> Team \<Rightarrow> int" where
  "fetchedPoints allScores team =
     (case allScores (team_id team) of
        None \<Rightarrow> 0
      | Some s \<Rightarrow> (if totalScore s = 0 then 0 else totalScore s))"

definition teamsWithScores :: "Team list \<Rightarrow> (string \<rightharpoonup> TeamScore) \<Rightarrow> Team list" where
  "teamsWithScores activeTeams allScores =
     map (\<lambda>team. team\<lparr>points := fetchedPoints allScores team\<rparr>) activeTeams"

text \<open>\<^verbatim>\<open>[...teamsWithScores].sort((a, b) => b.points - a.points)\<close>\<close>

definition byPointsDesc :: "Team \<Rightarrow> Team \<Rightarrow> int" where
  "byPointsDesc a b = points b - points a"

definition teamsArray :: "Team list \<Rightarrow> Team list" where
  "teamsArray tws = js_sort byPointsDesc tws"

text \<open>\<^verbatim>\<open>{ ...team, rank: currentRank }\<close>\<close>

definition withRank :: "Team \<Rightarrow> nat \<Rightarrow> RankedTeam" where
  "withRank team r = Team.extend team (RankedTeam.fields r)"

text \<open>
  The \<^verbatim>\<open>forEach\<close> loop over the sorted teams. Its state is \<open>currentRank\<close>,
  \<open>previousPoints\<close> and the running \<open>index\<close>; each iteration first updates the state
  when \<^verbatim>\<open>index > 0 && team.points < previousPoints\<close> and then pushes the team with the
  current rank.
\<close>

fun rankLoop :: "nat \<Rightarrow> int \<Rightarrow> nat \<Rightarrow> Team list \<Rightarrow> RankedTeam list" where
  "rankLoop currentRank previousPoints index [] = []"
| "rankLoop currentRank previousPoints index (team # rest) =
     (if 0 < index \<and> points team < previousPoints
      then withRank team (index + 1) # rankLoop (index + 1) (points team) (index + 1) rest
      else withRank team currentRank # rankLoop currentRank previousPoints (index + 1) rest)"

definition rankedTeamsData :: "Team list \<Rightarrow> RankedTeam list" where
  "rankedTeamsData ta =
     (if 0 < length ta then rankLoop 1 (points (hd ta)) 0 ta else [])"

text \<open>Steps 5 and 6 of the aggregation pass, from the active teams and the fetched scores.\<close>

definition leaderboardOf :: "Team list \<Rightarrow> (string \<rightharpoonup> TeamScore) \<Rightarrow> RankedTeam list" where
  "leaderboardOf activeTeams allScores =
     rankedTeamsData (teamsArray (teamsWithScores activeTeams allScores))"

text \<open>
  The rule of the specification, in its words: the first team has rank 1; each later team
  keeps the current rank when its score equals the last-seen distinct score, and otherwise
  takes its 1-based position as rank and its score becomes the last-seen distinct score.
  The arguments are the current rank, the last-seen distinct score and the 1-based
  position of the next team.
\<close>

fun legacyRanksFrom :: "nat \<Rightarrow> int \<Rightarrow> nat \<Rightarrow> int list \<Rightarrow> nat list" where
  "legacyRanksFrom r lastSeen pos [] = []"
| "legacyRanksFrom r lastSeen pos (s # ss) =
     (if s = lastSeen then r # legacyRanksFrom r lastSeen (pos + 1) ss
      else pos # legacyRanksFrom pos s (pos + 1) ss)"

fun legacyRanks :: "int list \<Rightarrow> nat list" where
  "legacyRanks [] = []"
| "legacyRanks (s # ss) = 1 # legacyRanksFrom 1 s 2 ss"

subsection \<open>Questions, games and the page state\<close>

record Question =
  question_id :: string
  question_text :: string
  category :: string
  options :: "string list option"
  correctAnswerIndex :: "int option"
  correctAnswer :: "string option"

record Game =
  status :: GameStatus
  currentQuestionIndex :: int
  questionOrder :: "string list option"
  questions :: "Question list"
  resultsReady :: "bool option"

text \<open>\<^verbatim>\<open>Partial<Game>\<close>: the fields an update names.\<close>

record GameUpdates =
  upd_status :: "GameStatus option"
  upd_currentQuestionIndex :: "int option"
  upd_questionOrder :: "string list option option"
  upd_questions :: "Question list option"
  upd_resultsReady :: "bool option option"

definition noUpdates :: GameUpdates where
  "noUpdates = \<lparr>upd_status = None, upd_currentQuestionIndex = None, upd_questionOrder = None,
     upd_questions = None, upd_resultsReady = None\<rparr>"

text \<open>
  Modelled from the spec: \<^verbatim>\<open>updateGameData\<close> lives in \<^verbatim>\<open>lib/firebase\<close>, which is not among
  the sources. The specification calls it an atomic partial update: the fields the update
  names are replaced, every other field of the game record stays.
\<close>

definition applyUpdate :: "Game \<Rightarrow> GameUpdates \<Rightarrow> Game" where
  "applyUpdate g u =
     \<lparr>status = (case upd_status u of None \<Rightarrow> status g | Some v \<Rightarrow> v),
      currentQuestionIndex =
        (case upd_currentQuestionIndex u of None \<Rightarrow> currentQuestionIndex g | Some v \<Rightarrow> v),
      questionOrder = (case upd_questionOrder u of None \<Rightarrow> questionOrder g | Some v \<Rightarrow> v),
      questions = (case upd_questions u of None \<Rightarrow> questions g | Some v \<Rightarrow> v),
      resultsReady = (case upd_resultsReady u of None \<Rightarrow> resultsReady g | Some v \<Rightarrow> v)\<rparr>"

record TeamAnswerResult =
  res_selectedAnswer :: "string option"
  res_isCorrect :: "bool option"
  res_pointsAwarded :: "int option"
  res_answerIndex :: "int option"

record TeamAnswerDisplay =
  teamId :: string
  teamName :: string
  selectedAnswer :: "string option"
  isCorrect :: "bool option"
  pointsAwarded :: "int option"
  answerIndex :: "int option"

text \<open>
  The state of the component: what the subscription hook delivers (\<open>game\<close>,
  \<open>gameLoading\<close>, \<open>gameError\<close> with the error's message), the stored game code and the
  \<^verbatim>\<open>useState\<close> cells.
\<close>

record Page =
  gameCode :: "string option"
  game :: "Game option"
  gameLoading :: bool
  gameError :: "string option"
  error :: "string option"
  loading :: bool
  currentQuestion :: "Question option"
  teamAnswers :: "TeamAnswerDisplay list"
  rankedTeams :: "RankedTeam list"
  isLastQuestion :: bool
  isNavigating :: bool

text \<open>A string or \<^verbatim>\<open>null\<close> used as a condition: \<^verbatim>\<open>null\<close> and the empty string are falsy.\<close>

definition truthy :: "string option \<Rightarrow> bool" where
  "truthy s = (case s of None \<Rightarrow> False | Some v \<Rightarrow> v \<noteq> [])"

subsection \<open>The admin's advance handler\<close>

definition QUESTIONS_PER_CATEGORY :: int where
  "QUESTIONS_PER_CATEGORY = 8"

text \<open>The remainder operator \<^verbatim>\<open>%\<close> on integers: the result has the sign of the dividend.\<close>

definition js_rem :: "int \<Rightarrow> int \<Rightarrow> int" where
  "js_rem a b = sgn a * (\<bar>a\<bar> mod \<bar>b\<bar>)"

text \<open>
  What \<^verbatim>\<open>handleNextStep\<close> holds when it suspends at \<^verbatim>\<open>await updateGameData(gameCode, updates)\<close>:
  the write it has issued and the locals its continuation reads.
\<close>

record Pending =
  writeCode :: string
  updates :: GameUpdates
  nextRoute :: string
  shouldNavigate :: bool

text \<open>The three branches that fill \<open>updates\<close>, \<open>nextRoute\<close> and \<open>shouldNavigate\<close>.\<close>

definition nextStep :: "string \<Rightarrow> int \<Rightarrow> int \<Rightarrow> Pending" where
  "nextStep code currentIndex totalQuestions =
     (let nextQuestionIndex = currentIndex + 1;
          isEndOfGame = (nextQuestionIndex \<ge> totalQuestions);
          isBreakTime = (nextQuestionIndex > 0
                         \<and> js_rem nextQuestionIndex QUESTIONS_PER_CATEGORY = 0
                         \<and> \<not> isEndOfGame)
      in if isEndOfGame then
           \<lparr>writeCode = code,
            updates = noUpdates\<lparr>upd_status := Some game_end\<rparr>,
            nextRoute = ''/admin/winners?gameCode='' @ code,
            shouldNavigate = True\<rparr>
         else if isBreakTime then
           \<lparr>writeCode = code,
            updates = noUpdates\<lparr>upd_status := Some leaderboard\<rparr>,
            nextRoute = ''/admin/break?gameCode='' @ code,
            shouldNavigate = False\<rparr>
         else
           \<lparr>writeCode = code,
            updates = noUpdates\<lparr>upd_status := Some question_display,
                                upd_currentQuestionIndex := Some nextQuestionIndex,
                                upd_resultsReady := Some (Some False)\<rparr>,
            nextRoute = ''/admin/question?gameCode='' @ code,
            shouldNavigate = True\<rparr>)"

text \<open>
  The transition rule of the specification, in its words and in its order of precedence:
  the status the game is to take when the admin advances from question \<open>currentIndex\<close>
  of \<open>totalQuestions\<close>.
\<close>

definition targetStatus :: "int \<Rightarrow> int \<Rightarrow> GameStatus" where
  "targetStatus currentIndex totalQuestions =
     (if currentIndex + 1 \<ge> totalQuestions then game_end
      else if 0 < currentIndex + 1 \<and> (currentIndex + 1) mod QUESTIONS_PER_CATEGORY = 0
      then leaderboard
      else question_display)"

text \<open>
  The handler up to its \<^verbatim>\<open>await\<close>: the guard, \<^verbatim>\<open>setIsNavigating(true)\<close> and the call of
  \<^verbatim>\<open>updateGameData\<close>. \<open>None\<close> is the early \<^verbatim>\<open>return\<close> of the guard: nothing is written.
\<close>

definition handleNextStep :: "Page \<Rightarrow> Page \<times> Pending option" where
  "handleNextStep pg =
     (case game pg of
        None \<Rightarrow> (pg, None)
      | Some g \<Rightarrow>
         (case questionOrder g of
            None \<Rightarrow> (pg, None)
          | Some order \<Rightarrow>
             if \<not> truthy (gameCode pg) \<or> isNavigating pg then (pg, None)
             else (pg\<lparr>isNavigating := True\<rparr>,
                   Some (nextStep (the (gameCode pg)) (currentQuestionIndex g)
                           (int (length order))))))"

text \<open>
  The handler after the \<^verbatim>\<open>await\<close>: \<open>ok\<close> tells whether the write was fulfilled. The second
  component lists the routes it navigates to.
\<close>

definition handleNextStep_settled :: "bool \<Rightarrow> Pending \<Rightarrow> Page \<Rightarrow> Page \<times> string list" where
  "handleNextStep_settled ok pend pg =
     (if ok then
        (if shouldNavigate pend then (pg, [nextRoute pend])
         else (pg\<lparr>isNavigating := False\<rparr>, []))
      else (pg\<lparr>error := Some ''Failed to update game state'', isNavigating := False\<rparr>, []))"

text \<open>
  What the render shows: the error screen when \<^verbatim>\<open>error || gameError?.message\<close> is truthy,
  else the spinner when \<^verbatim>\<open>loading || gameLoading\<close>, else the board when there is a game
  and a current question, else nothing.
\<close>

datatype Screen = ErrorScreen string | Spinner | Board | Nothing

definition displayError :: "Page \<Rightarrow> string option" where
  "displayError pg = (if truthy (error pg) then error pg else gameError pg)"

definition render :: "Page \<Rightarrow> Screen" where
  "render pg =
     (if truthy (displayError pg) then ErrorScreen (the (displayError pg))
      else if loading pg \<or> gameLoading pg then Spinner
      else if game pg \<noteq> None \<and> currentQuestion pg \<noteq> None then Board
      else Nothing)"

text \<open>
  The advance button (\<^verbatim>\<open>onClick={handleNextStep}\<close>) belongs to the main \<^verbatim>\<open>return\<close> of the
  render, beside the spinner or the board; the error screen is returned before it and has
  only the link back to the admin page.
\<close>

definition showsAdvanceButton :: "Page \<Rightarrow> bool" where
  "showsAdvanceButton pg = (case render pg of ErrorScreen m \<Rightarrow> False | _ \<Rightarrow> True)"

text \<open>
  The event loop around the handler: a click runs the handler up to its \<^verbatim>\<open>await\<close>, a
  settled write resumes the oldest suspended handler. A click reaches the handler only
  on a page that renders the advance button. The world keeps the component state, the
  suspended handlers, and logs of every \<^verbatim>\<open>updateGameData\<close> call and every navigation. The
  component state a click reads is the one the previous event left: React re-renders
  after each event before it dispatches the next one.
\<close>

datatype Event = Click | Settled bool

record World =
  page :: Page
  inFlight :: "Pending list"
  writes :: "(string \<times> GameUpdates) list"
  navigations :: "string list"

fun step :: "World \<Rightarrow> Event \<Rightarrow> World" where
  "step w Click =
     (if \<not> showsAdvanceButton (page w) then w
      else
        (case handleNextStep (page w) of
           (pg, None) \<Rightarrow> w\<lparr>page := pg\<rparr>
         | (pg, Some pend) \<Rightarrow>
             w\<lparr>page := pg, inFlight := inFlight w @ [pend],
               writes := writes w @ [(writeCode pend, updates pend)]\<rparr>))"
| "step w (Settled ok) =
     (case inFlight w of
        [] \<Rightarrow> w
      | pend # rest \<Rightarrow>
          (case handleNextStep_settled ok pend (page w) of
             (pg, routes) \<Rightarrow>
               w\<lparr>page := pg, inFlight := rest, navigations := navigations w @ routes\<rparr>))"

definition run :: "World \<Rightarrow> Event list \<Rightarrow> World" where
  "run w events = foldl step w events"

subsection \<open>The answer board\<close>

text \<open>
  \<^verbatim>\<open>team.name || `Team ${team.id.substring(0, 4)}`\<close>. Team identifiers are taken to be
  ASCII, where the first four characters are the first four UTF-16 units that
  \<^verbatim>\<open>substring\<close> counts; on an identifier with other characters \<open>take 4\<close> is not
  \<^verbatim>\<open>substring(0, 4)\<close>. Only \<open>teamName\<close> of a team without a name depends on it.
\<close>

definition displayName :: "Team \<Rightarrow> string" where
  "displayName team = (if name team \<noteq> [] then name team else ''Team '' @ take 4 (team_id team))"

text \<open>
  The callback of \<^verbatim>\<open>teamResults.map\<close>: a fetched result is an object or \<^verbatim>\<open>null\<close>, so
  \<^verbatim>\<open>if (result)\<close> asks whether it is present.
\<close>

definition teamAnswerDisplay :: "Team \<times> TeamAnswerResult option \<Rightarrow> TeamAnswerDisplay" where
  "teamAnswerDisplay tr =
     (case tr of
        (team, Some result) \<Rightarrow>
          \<lparr>teamId = team_id team,
           teamName = displayName team,
           selectedAnswer = res_selectedAnswer result,
           isCorrect = res_isCorrect result,
           pointsAwarded = res_pointsAwarded result,
           answerIndex = res_answerIndex result\<rparr>
      | (team, None) \<Rightarrow>
          \<lparr>teamId = team_id team,
           teamName = displayName team,
           selectedAnswer = Some ''nije odgovoreno'',
           isCorrect = None,
           pointsAwarded = Some 0,
           answerIndex = Some (- 1)\<rparr>)"

definition processedAnswersArray ::
  "(Team \<times> TeamAnswerResult option) list \<Rightarrow> TeamAnswerDisplay list" where
  "processedAnswersArray teamResults = map teamAnswerDisplay teamResults"

text \<open>
  The comparator of the answer sort. \<^verbatim>\<open>localeCompare\<close> is the platform's collation; it is
  the parameter \<open>lc\<close>.
\<close>

definition answerCompare ::
  "(string \<Rightarrow> string \<Rightarrow> int) \<Rightarrow> TeamAnswerDisplay \<Rightarrow> TeamAnswerDisplay \<Rightarrow> int" where
  "answerCompare lc a b =
     (let aCorrect = (case isCorrect a of None \<Rightarrow> False | Some v \<Rightarrow> v);
          bCorrect = (case isCorrect b of None \<Rightarrow> False | Some v \<Rightarrow> v)
      in if aCorrect \<noteq> bCorrect then (if bCorrect then 1 else - 1)
         else
           (let aPoints = (case pointsAwarded a of None \<Rightarrow> 0 | Some v \<Rightarrow> v);
                bPoints = (case pointsAwarded b of None \<Rightarrow> 0 | Some v \<Rightarrow> v)
            in if aPoints \<noteq> bPoints then bPoints - aPoints
               else lc (teamName a) (teamName b)))"

definition sortAnswers ::
  "(string \<Rightarrow> string \<Rightarrow> int) \<Rightarrow> TeamAnswerDisplay list \<Rightarrow> TeamAnswerDisplay list" where
  "sortAnswers lc rows = js_sort (answerCompare lc) rows"

text \<open>
  The order of the specification, in its words: a correct row stands before a row that
  is not correct (incorrect or unanswered); among rows of the same kind the one with more
  points (none counting as 0) stands first; among rows with the same points the names
  decide, in ascending collation order.
\<close>

definition rowCorrect :: "TeamAnswerDisplay \<Rightarrow> bool" where
  "rowCorrect a = (isCorrect a = Some True)"

definition rowPoints :: "TeamAnswerDisplay \<Rightarrow> int" where
  "rowPoints a = (case pointsAwarded a of None \<Rightarrow> 0 | Some v \<Rightarrow> v)"

definition answerBefore ::
  "(string \<Rightarrow> string \<Rightarrow> int) \<Rightarrow> TeamAnswerDisplay \<Rightarrow> TeamAnswerDisplay \<Rightarrow> bool" where
  "answerBefore lc a b =
     ((rowCorrect a \<and> \<not> rowCorrect b)
      \<or> (rowCorrect a = rowCorrect b
          \<and> (rowPoints b < rowPoints a
              \<or> (rowPoints a = rowPoints b \<and> lc (teamName a) (teamName b) \<le> 0))))"

definition sameKeys ::
  "(string \<Rightarrow> string \<Rightarrow> int) \<Rightarrow> TeamAnswerDisplay \<Rightarrow> TeamAnswerDisplay \<Rightarrow> bool" where
  "sameKeys lc a b =
     (rowCorrect a = rowCorrect b \<and> rowPoints a = rowPoints b \<and> lc (teamName a) (teamName b) = 0)"

subsection \<open>The correct-answer text\<close>

text \<open>
  The placeholder of the free-text category, \<^verbatim>\<open>Gre\<close>+U+0161+\<^verbatim>\<open>ka: Ta\<close>+U+010D+\<^verbatim>\<open>an odgovor
  nedostaje u podacima pitanja\<close>, with its two non-ASCII letters in UTF-8.
\<close>

definition missingAnswerText :: string where
  "missingAnswerText =
     ''Gre'' @ [CHR 0xC5, CHR 0xA1] @ ''ka: Ta'' @ [CHR 0xC4, CHR 0x8D]
       @ ''an odgovor nedostaje u podacima pitanja''"

text \<open>
  \<^verbatim>\<open>options[i]\<close> for an integer \<open>i \<ge> 0\<close>: the element, or \<^verbatim>\<open>undefined\<close> (\<open>None\<close>) when \<open>i\<close> is
  not an index of the array.
\<close>

definition js_index :: "'a list \<Rightarrow> int \<Rightarrow> 'a option" where
  "js_index xs i = (if 0 \<le> i \<and> i < int (length xs) then Some (xs ! nat i) else None)"

text \<open>
  \<open>derivedCorrectAnswerText\<close> as the render computes it; \<open>None\<close> is the value
  \<^verbatim>\<open>undefined\<close>, which the page renders as nothing.
\<close>

definition derivedCorrectAnswerText :: "Question option \<Rightarrow> string option" where
  "derivedCorrectAnswerText cq =
     (case cq of
        None \<Rightarrow> Some ''N/A''
      | Some q \<Rightarrow>
          if category q = ''Pogodite crtani'' then
            (if truthy (correctAnswer q) then correctAnswer q else Some missingAnswerText)
          else if options q \<noteq> None
                  \<and> (case correctAnswerIndex q of None \<Rightarrow> False | Some i \<Rightarrow> i \<ge> 0) then
            js_index (the (options q)) (the (correctAnswerIndex q))
          else if truthy (correctAnswer q) then correctAnswer q
          else Some ''N/A'')"

subsection \<open>The aggregation pass and the effect that starts it\<close>

text \<open>
  The three fetches of the pass are calls into \<^verbatim>\<open>lib/firebase\<close>; their outcomes are inputs:
  \<open>Inr\<close> the fetched value, \<open>Inl\<close> the message of the error a rejected fetch throws. The
  answer fetches of the teams run side by side, so a rejected one also carries the time
  at which it is rejected.
\<close>

record Fetches =
  getTeamsForGame :: "string \<Rightarrow> string + Team list"
  getTeamAnswerResult ::
    "string \<Rightarrow> string \<Rightarrow> string \<Rightarrow> (nat \<times> string) + TeamAnswerResult option"
  getAllScoresForGame :: "string \<Rightarrow> string + (string \<rightharpoonup> TeamScore)"

text \<open>The calls a run makes, with their arguments, in the order it makes them.\<close>

datatype FetchCall =
  GetTeamsForGame string
| GetTeamAnswerResult string string string
| GetAllScoresForGame string

text \<open>
  \<^verbatim>\<open>await Promise.all(answerPromises)\<close>: all results in the order of the teams when every
  promise is fulfilled; otherwise it throws the error of the promise that is rejected
  first in time.
\<close>

fun rejected :: "('e + 'a) list \<Rightarrow> 'e list" where
  "rejected [] = []"
| "rejected (Inl r # ps) = r # rejected ps"
| "rejected (Inr v # ps) = rejected ps"

fun fulfilled :: "('e + 'a) list \<Rightarrow> 'a list" where
  "fulfilled [] = []"
| "fulfilled (Inl r # ps) = fulfilled ps"
| "fulfilled (Inr v # ps) = v # fulfilled ps"

fun earliest :: "nat \<times> string \<Rightarrow> (nat \<times> string) list \<Rightarrow> nat \<times> string" where
  "earliest r [] = r"
| "earliest r (x # xs) = earliest (if fst x < fst r then x else r) xs"

definition promiseAll :: "((nat \<times> string) + 'a) list \<Rightarrow> string + 'a list" where
  "promiseAll ps =
     (case rejected ps of
        [] \<Rightarrow> Inr (fulfilled ps)
      | r # rs \<Rightarrow> Inl (snd (earliest r rs)))"

text \<open>
  The message of the \<^verbatim>\<open>TypeError\<close> that reading \<^verbatim>\<open>.length\<close> of a missing \<open>questionOrder\<close>
  throws (the wording is the engine's; this is V8's).
\<close>

definition typeErrorText :: string where
  "typeErrorText =
     ''Cannot read properties of undefined (reading '' @ [CHR 0x27] @ ''length'' @ [CHR 0x27] @ '')''"

text \<open>
  The \<^verbatim>\<open>try\<close> block of \<open>processAndFetchData\<close>: the page with the cells set so far, the
  message of the error thrown, if any, and the fetches made. The answer fetches of all
  active teams are started before any of them is awaited.
\<close>

definition tryBlock ::
  "Fetches \<Rightarrow> (string \<Rightarrow> string \<Rightarrow> int) \<Rightarrow> string \<Rightarrow> Game \<Rightarrow> Page
     \<Rightarrow> Page \<times> string option \<times> FetchCall list" where
  "tryBlock fx lc code g pg =
     (case questionOrder g of
        None \<Rightarrow> (pg, Some typeErrorText, [])
      | Some order \<Rightarrow>
          if currentQuestionIndex g < 0 \<or> currentQuestionIndex g \<ge> int (length order)
          then (pg, Some ''Invalid current question index.'', [])
          else
            (let currentQuestionId = order ! nat (currentQuestionIndex g) in
             case find (\<lambda>q. question_id q = currentQuestionId) (questions g) of
               None \<Rightarrow> (pg, Some ''Current question data not found in game state.'', [])
             | Some questionData \<Rightarrow>
                 (let pg1 = pg\<lparr>currentQuestion := Some questionData,
                               isLastQuestion :=
                                 (currentQuestionIndex g \<ge> int (length order) - 1)\<rparr>;
                      calls1 = [GetTeamsForGame code] in
                  case getTeamsForGame fx code of
                    Inl m \<Rightarrow> (pg1, Some m, calls1)
                  | Inr allTeamsForGame \<Rightarrow>
                      (let activeTeams =
                             filter (\<lambda>team. isActive team \<noteq> Some False) allTeamsForGame;
                           calls2 = calls1
                             @ map (\<lambda>team. GetTeamAnswerResult code currentQuestionId (team_id team))
                                 activeTeams in
                       case promiseAll
                              (map (\<lambda>team.
                                      case getTeamAnswerResult fx code currentQuestionId (team_id team) of
                                        Inl r \<Rightarrow> Inl r
                                      | Inr result \<Rightarrow> Inr (team, result)) activeTeams) of
                         Inl m \<Rightarrow> (pg1, Some m, calls2)
                       | Inr teamResults \<Rightarrow>
                           (let pg2 = pg1\<lparr>teamAnswers :=
                                            sortAnswers lc (processedAnswersArray teamResults)\<rparr>;
                                calls3 = calls2 @ [GetAllScoresForGame code] in
                            case getAllScoresForGame fx code of
                              Inl m \<Rightarrow> (pg2, Some m, calls3)
                            | Inr allScores \<Rightarrow>
                                (pg2\<lparr>rankedTeams := leaderboardOf activeTeams allScores,
                                     error := None\<rparr>, None, calls3))))))"

definition processAndFetchData ::
  "Fetches \<Rightarrow> (string \<Rightarrow> string \<Rightarrow> int) \<Rightarrow> string \<Rightarrow> Game \<Rightarrow> Page
     \<Rightarrow> Page \<times> FetchCall list" where
  "processAndFetchData fx lc code g pg =
     (case tryBlock fx lc code g (pg\<lparr>loading := True\<rparr>) of
        (pg', None, calls) \<Rightarrow> (pg'\<lparr>loading := False\<rparr>, calls)
      | (pg', Some m, calls) \<Rightarrow>
          (pg'\<lparr>error := Some (''Error processing data: '' @ m), loading := False\<rparr>, calls))"

text \<open>
  The first effect of the component, run on every delivery of the hook. Besides the page
  with the cells it set, it gives what the run did (it scheduled the redirect to the
  admin page, it returned early, or it ran the aggregation pass) and the fetches the run
  made.
\<close>

datatype EffectRun = RedirectScheduled | ReturnedEarly | PassRan

definition revealEffect ::
  "Fetches \<Rightarrow> (string \<Rightarrow> string \<Rightarrow> int) \<Rightarrow> Page \<Rightarrow> Page \<times> EffectRun \<times> FetchCall list" where
  "revealEffect fx lc pg =
     (if \<not> truthy (gameCode pg) then
        (pg\<lparr>error := Some ''Missing game code. Redirecting...''\<rparr>, RedirectScheduled, [])
      else if gameLoading pg \<or> gameError pg \<noteq> None \<or> game pg = None then
        (pg\<lparr>loading := True\<rparr>, ReturnedEarly, [])
      else
        (let g = the (game pg) in
         if status g \<noteq> answer_reveal \<or> resultsReady g \<noteq> Some True then
           (pg\<lparr>loading := (status g = answer_reveal)\<rparr>, ReturnedEarly, [])
         else
           (case processAndFetchData fx lc (the (gameCode pg)) g pg of
              (pg', calls) \<Rightarrow> (pg', PassRan, calls))))"

subsection \<open>Concrete inputs\<close>

text \<open>Six teams whose scores are those of the ranking example of the specification.\<close>

definition exampleBoard :: "Team list" where
  "exampleBoard =
     [\<lparr>team_id = ''t1'', name = ''Lavovi'', mascotId = 1, isActive = Some True, points = 50\<rparr>,
      \<lparr>team_id = ''t2'', name = ''Vukovi'', mascotId = 2, isActive = None, points = 50\<rparr>,
      \<lparr>team_id = ''t3'', name = ''Orlovi'', mascotId = 3, isActive = Some True, points = 30\<rparr>,
      \<lparr>team_id = ''t4'', name = ''Sokolovi'', mascotId = 4, isActive = Some True, points = 30\<rparr>,
      \<lparr>team_id = ''t5'', name = ''Risovi'', mascotId = 5, isActive = None, points = 30\<rparr>,
      \<lparr>team_id = ''t6'', name = ''Medvedi'', mascotId = 6, isActive = Some True, points = 10\<rparr>]"

text \<open>
  Four active teams in the order the team fetch returned them, and the fetched scores: team
  \<open>a\<close> has no score entry. The \<open>points\<close> a team record carries are stale and
  are replaced by the fetched ones.
\<close>

definition exampleTeams :: "Team list" where
  "exampleTeams =
     [\<lparr>team_id = ''a'', name = ''Lavovi'', mascotId = 1, isActive = Some True, points = 0\<rparr>,
      \<lparr>team_id = ''b'', name = ''Vukovi'', mascotId = 2, isActive = None, points = 7\<rparr>,
      \<lparr>team_id = ''c'', name = ''Orlovi'', mascotId = 3, isActive = Some True, points = 0\<rparr>,
      \<lparr>team_id = ''d'', name = ''Risovi'', mascotId = 4, isActive = Some True, points = 0\<rparr>]"

definition exampleScores :: "string \<rightharpoonup> TeamScore" where
  "exampleScores =
     [''b'' \<mapsto> \<lparr>totalScore = 40\<rparr>, ''c'' \<mapsto> \<lparr>totalScore = 40\<rparr>, ''d'' \<mapsto> \<lparr>totalScore = 70\<rparr>]"

text \<open>
  A game of sixteen questions in the reveal state, at a chosen question index, and the
  page of an admin who holds its code and is not navigating.
\<close>

definition sixteenQuestions :: "string list" where
  "sixteenQuestions =
     [''q01'', ''q02'', ''q03'', ''q04'', ''q05'', ''q06'', ''q07'', ''q08'',
      ''q09'', ''q10'', ''q11'', ''q12'', ''q13'', ''q14'', ''q15'', ''q16'']"

definition gameAt :: "int \<Rightarrow> Game" where
  "gameAt i = \<lparr>status = answer_reveal, currentQuestionIndex = i,
     questionOrder = Some sixteenQuestions, questions = [], resultsReady = Some True\<rparr>"

definition pageOf :: "Game \<Rightarrow> Page" where
  "pageOf g = \<lparr>gameCode = Some ''KVIZ42'', game = Some g, gameLoading = False, gameError = None,
     error = None, loading = False, currentQuestion = None, teamAnswers = [],
     rankedTeams = [], isLastQuestion = False, isNavigating = False\<rparr>"

definition worldOf :: "Page \<Rightarrow> World" where
  "worldOf pg = \<lparr>page = pg, inFlight = [], writes = [], navigations = []\<rparr>"

text \<open>A collation for the examples: strings compared by their character codes.\<close>

definition codeOrderCompare :: "string \<Rightarrow> string \<Rightarrow> int" where
  "codeOrderCompare a b = (if a < b then - 1 else if a = b then 0 else 1)"

text \<open>
  Fetches for the examples: the four example teams, a processed answer for team \<open>b\<close>
  only, and the example scores.
\<close>

definition exampleFetches :: Fetches where
  "exampleFetches =
     \<lparr>getTeamsForGame = (\<lambda>code. Inr exampleTeams),
      getTeamAnswerResult = (\<lambda>code questionId team.
         if team = ''b''
         then Inr (Some \<lparr>res_selectedAnswer = Some ''Jerry'', res_isCorrect = Some True,
                          res_pointsAwarded = Some 10, res_answerIndex = Some 1\<rparr>)
         else Inr None),
      getAllScoresForGame = (\<lambda>code. Inr exampleScores)\<rparr>"

text \<open>
  The third question of the example game, and that game in the reveal state with the
  question's data and its results ready; the same game while its results are not ready.
\<close>

definition exampleQuestion :: Question where
  "exampleQuestion =
     \<lparr>question_id = ''q03'', question_text = ''Ko juri Toma?'', category = ''Opste znanje'',
      options = Some [''Tom'', ''Jerry''], correctAnswerIndex = Some 1,
      correctAnswer = None\<rparr>"

definition revealGame :: Game where
  "revealGame = (gameAt 2)\<lparr>questions := [exampleQuestion]\<rparr>"

definition waitingGame :: Game where
  "waitingGame = revealGame\<lparr>resultsReady := Some False\<rparr>"

text \<open>
  A freshly mounted page (its \<open>loading\<close> cell starts as \<^verbatim>\<open>true\<close>) that receives a snapshot
  whose status is \<open>question_display\<close>.
\<close>

definition freshPageInQuestion :: Page where
  "freshPageInQuestion =
     (pageOf ((gameAt 2)\<lparr>status := question_display, resultsReady := Some False\<rparr>))
       \<lparr>loading := True\<rparr>"

text \<open>The four rows of the sorting example of the specification, in its input order.\<close>

definition exampleRows :: "TeamAnswerDisplay list" where
  "exampleRows =
     [\<lparr>teamId = ''t2'', teamName = ''B'', selectedAnswer = Some ''Tom'', isCorrect = Some True,
        pointsAwarded = Some 10, answerIndex = Some 1\<rparr>,
      \<lparr>teamId = ''t1'', teamName = ''A'', selectedAnswer = Some ''Tom'', isCorrect = Some True,
        pointsAwarded = Some 10, answerIndex = Some 1\<rparr>,
      \<lparr>teamId = ''t3'', teamName = ''C'', selectedAnswer = Some ''Jerry'', isCorrect = Some False,
        pointsAwarded = Some 0, answerIndex = Some 0\<rparr>,
      \<lparr>teamId = ''t4'', teamName = ''D'', selectedAnswer = Some ''nije odgovoreno'',
        isCorrect = None, pointsAwarded = Some 0, answerIndex = Some (- 1)\<rparr>]"

text \<open>
  Two fetched results: the first example team has no processed answer, the second one
  answered correctly.
\<close>

definition exampleTeamResults :: "(Team \<times> TeamAnswerResult option) list" where
  "exampleTeamResults =
     [(exampleTeams ! 0, None),
      (exampleTeams ! 1,
       Some \<lparr>res_selectedAnswer = Some ''Tom'', res_isCorrect = Some True,
             res_pointsAwarded = Some 10, res_answerIndex = Some 1\<rparr>)]"

text \<open>
  A multiple-choice question whose \<open>correctAnswerIndex\<close> lies beyond its two options,
  and which carries a \<open>correctAnswer\<close> text.
\<close>

definition outOfRangeQuestion :: Question where
  "outOfRangeQuestion =
     \<lparr>question_id = ''q03'', question_text = ''Ko juri Toma?'', category = ''Opste znanje'',
      options = Some [''Tom'', ''Jerry''], correctAnswerIndex = Some 2,
      correctAnswer = Some ''Jerry''\<rparr>"

section \<open>Properties of the sort\<close>

lemma mset_insert_by: "mset (insert_by cmp x ys) = add_mset x (mset ys)"
  by (induction ys) auto

lemma mset_js_sort: "mset (js_sort cmp xs) = mset xs"
  by (induction xs) (auto simp: mset_insert_by)

lemma set_insert_by: "set (insert_by cmp x ys) = insert x (set ys)"
  by (induction ys) auto

lemma set_js_sort: "set (js_sort cmp xs) = set xs"
  by (induction xs) (auto simp: set_insert_by)

lemma length_js_sort: "length (js_sort cmp xs) = length xs"
  by (induction xs) (auto simp: size_mset [symmetric] mset_insert_by simp del: size_mset)

lemma consistent_cmp_total: "consistent_cmp cmp \<Longrightarrow> \<not> cmp x y \<le> 0 \<Longrightarrow> cmp y x \<le> 0"
  unfolding consistent_cmp_def by (metis less_le not_le)

lemma consistent_cmp_trans:
  "consistent_cmp cmp \<Longrightarrow> cmp a b \<le> 0 \<Longrightarrow> cmp b c \<le> 0 \<Longrightarrow> cmp a c \<le> 0"
  unfolding consistent_cmp_def by blast

lemma sorted_insert_by:
  assumes "consistent_cmp cmp" and "sorted_wrt (\<lambda>a b. cmp a b \<le> 0) ys"
  shows "sorted_wrt (\<lambda>a b. cmp a b \<le> 0) (insert_by cmp x ys)"
  using assms(2)
proof (induction ys)
  case Nil
  then show ?case by simp
next
  case (Cons y ys)
  show ?case
  proof (cases "cmp x y \<le> 0")
    case True
    with Cons.prems assms(1) show ?thesis
      by (auto intro: consistent_cmp_trans)
  next
    case False
    then have "cmp y x \<le> 0" using assms(1) by (rule consistent_cmp_total [rotated])
    with False Cons show ?thesis
      by (auto simp: set_insert_by)
  qed
qed

lemma sorted_js_sort:
  "consistent_cmp cmp \<Longrightarrow> sorted_wrt (\<lambda>a b. cmp a b \<le> 0) (js_sort cmp xs)"
  by (induction xs) (auto intro: sorted_insert_by)

section \<open>The ranking loop\<close>


lemma truncate_withRank: "Team.truncate (withRank t r) = t"
  by (simp add: withRank_def Team.truncate_def Team.extend_def)

lemma points_withRank: "points (withRank t r) = points t"
  by (simp add: withRank_def Team.extend_def)

lemma rank_withRank: "rank (withRank t r) = r"
  by (simp add: withRank_def Team.extend_def RankedTeam.fields_def)

lemma team_id_withRank: "team_id (withRank t r) = team_id t"
  by (simp add: withRank_def Team.extend_def)

lemma truncate_rankLoop: "map Team.truncate (rankLoop cr pp i ts) = ts"
  by (induction ts arbitrary: cr pp i) (auto simp: truncate_withRank)

lemma rankLoop_legacy:
  "0 < i \<Longrightarrow> sorted_wrt (\<ge>) (pp # map points ts) \<Longrightarrow>
   map rank (rankLoop cr pp i ts) = legacyRanksFrom cr pp (i + 1) (map points ts)"
proof (induction ts arbitrary: cr pp i)
  case Nil
  then show ?case by simp
next
  case (Cons t ts)
  show ?case
  proof (cases "points t < pp")
    case True
    with Cons.prems Cons.IH [of "i + 1" "points t" "i + 1"] show ?thesis
      by (simp add: rank_withRank)
  next
    case False
    with Cons.prems have eq: "points t = pp" by simp
    with Cons.prems Cons.IH [of "i + 1" pp cr] show ?thesis
      by (simp add: rank_withRank)
  qed
qed


lemma rankedTeamsData_legacy:
  "sorted_wrt (\<ge>) (map points ts) \<Longrightarrow> map rank (rankedTeamsData ts) = legacyRanks (map points ts)"
  by (cases ts) (simp_all add: rankedTeamsData_def rank_withRank rankLoop_legacy numeral_2_eq_2)


lemma points_rankLoop: "map points (rankLoop cr pp i ts) = map points ts"
  by (induction ts arbitrary: cr pp i) (auto simp: points_withRank)

lemma length_rankLoop: "length (rankLoop cr pp i ts) = length ts"
  by (induction ts arbitrary: cr pp i) auto

lemma rankLoop_rank_le:
  "cr \<le> i \<Longrightarrow> k < length ts \<Longrightarrow> rank (rankLoop cr pp i ts ! k) \<le> i + k + 1"
proof (induction ts arbitrary: cr pp i k)
  case Nil
  then show ?case by simp
next
  case (Cons t ts)
  show ?case
  proof (cases k)
    case 0
    with Cons.prems show ?thesis by (simp add: rank_withRank)
  next
    case (Suc j)
    with Cons.prems have j: "j < length ts" by simp
    have "rank (rankLoop (i + 1) (points t) (i + 1) ts ! j) \<le> i + 1 + j + 1"
      using Cons.IH [of "i + 1" "i + 1" j "points t"] j by simp
    moreover have "rank (rankLoop cr pp (i + 1) ts ! j) \<le> i + 1 + j + 1"
      using Cons.IH [of cr "i + 1" j pp] j Cons.prems(1) by simp
    ultimately show ?thesis using Suc by simp
  qed
qed

lemma rankLoop_rank_sorted:
  "cr \<le> i \<Longrightarrow> sorted (cr # map rank (rankLoop cr pp i ts))"
proof (induction ts arbitrary: cr pp i)
  case Nil
  then show ?case by simp
next
  case (Cons t ts)
  have a: "sorted ((i + 1) # map rank (rankLoop (i + 1) (points t) (i + 1) ts))"
    by (rule Cons.IH) simp
  have b: "sorted (cr # map rank (rankLoop cr pp (i + 1) ts))"
    by (rule Cons.IH) (use Cons.prems in simp)
  from a b Cons.prems show ?case
    by (auto simp: rank_withRank)
qed

lemma rankLoop_adjacent:
  "0 < i \<Longrightarrow> cr \<le> i \<Longrightarrow> sorted_wrt (\<ge>) (pp # map points ts) \<Longrightarrow>
   rank p = cr \<Longrightarrow> points p = pp \<Longrightarrow>
   successively (\<lambda>a b. (rank a = rank b) = (points a = points b)) (p # rankLoop cr pp i ts)"
proof (induction ts arbitrary: cr pp i p)
  case Nil
  then show ?case by simp
next
  case (Cons t ts)
  show ?case
  proof (cases "points t < pp")
    case True
    have "successively (\<lambda>a b. (rank a = rank b) = (points a = points b))
            (withRank t (i + 1) # rankLoop (i + 1) (points t) (i + 1) ts)"
      by (rule Cons.IH) (use Cons.prems in \<open>simp_all add: rank_withRank points_withRank\<close>)
    with True Cons.prems show ?thesis
      by (simp add: rank_withRank points_withRank)
  next
    case False
    with Cons.prems have eq: "points t = pp" by simp
    have "successively (\<lambda>a b. (rank a = rank b) = (points a = points b))
            (withRank t cr # rankLoop cr pp (i + 1) ts)"
      by (rule Cons.IH) (use Cons.prems eq in \<open>simp_all add: rank_withRank points_withRank\<close>)
    with False eq Cons.prems show ?thesis
      by (simp add: rank_withRank points_withRank)
  qed
qed

lemma rankedTeamsData_Cons:
  "rankedTeamsData (t # ts) = withRank t 1 # rankLoop 1 (points t) 1 ts"
  by (simp add: rankedTeamsData_def)

lemma successively_nth:
  "successively P xs \<Longrightarrow> Suc k < length xs \<Longrightarrow> P (xs ! k) (xs ! Suc k)"
proof (induction xs arbitrary: k)
  case Nil
  then show ?case by simp
next
  case (Cons x xs)
  then show ?case
    by (cases xs; cases k) auto
qed

lemma consistent_byPointsDesc: "consistent_cmp byPointsDesc"
  by (auto simp: consistent_cmp_def byPointsDesc_def)

lemma sorted_teamsArray: "sorted_wrt (\<lambda>a b. points b \<le> points a) (teamsArray tws)"
  using sorted_js_sort [OF consistent_byPointsDesc, of tws]
  by (simp add: teamsArray_def byPointsDesc_def)


text \<open>
  Claim C1. On a non-empty list of teams in descending order of score, the ranking loop
  gives the first team rank 1 and every later team the rank of the legacy rule: the
  current rank while the score equals the last-seen distinct score, the 1-based position
  otherwise. The teams themselves are unchanged, and scores 50, 50, 30, 30, 30, 10 get
  ranks 1, 1, 3, 3, 3, 6 (not 1, 1, 2, 2, 2, 3).
\<close>

theorem dense_rank_rule:
  assumes "ts \<noteq> []" and "sorted_wrt (\<lambda>a b. points b \<le> points a) ts"
  shows "map rank (rankedTeamsData ts) = legacyRanks (map points ts)
       \<and> rank (hd (rankedTeamsData ts)) = 1
       \<and> map Team.truncate (rankedTeamsData ts) = ts
       \<and> (map points ts = [50, 50, 30, 30, 30, 10] \<longrightarrow>
            map rank (rankedTeamsData ts) = [1, 1, 3, 3, 3, 6]
          \<and> map rank (rankedTeamsData ts) \<noteq> [1, 1, 2, 2, 2, 3])"
proof -
  from assms(2) have srt: "sorted_wrt (\<ge>) (map points ts)"
    by (simp add: sorted_wrt_map)
  then have eq: "map rank (rankedTeamsData ts) = legacyRanks (map points ts)"
    by (rule rankedTeamsData_legacy)
  from assms(1) obtain t ts' where ts: "ts = t # ts'" by (cases ts) auto
  have first: "rank (hd (rankedTeamsData ts)) = 1"
    by (simp add: ts rankedTeamsData_Cons rank_withRank)
  have same: "map Team.truncate (rankedTeamsData ts) = ts"
    by (simp add: ts rankedTeamsData_Cons truncate_withRank truncate_rankLoop)
  have ex: "map points ts = [50, 50, 30, 30, 30, 10] \<longrightarrow>
            map rank (rankedTeamsData ts) = [1, 1, 3, 3, 3, 6]
          \<and> map rank (rankedTeamsData ts) \<noteq> [1, 1, 2, 2, 2, 3]"
    by (simp add: eq)
  from eq first same ex show ?thesis by blast
qed

theorem dense_rank_rule_witness:
  "exampleBoard \<noteq> []
   \<and> sorted_wrt (\<lambda>a b. points b \<le> points a) exampleBoard
   \<and> map points exampleBoard = [50, 50, 30, 30, 30, 10]
   \<and> map rank (rankedTeamsData exampleBoard) = [1, 1, 3, 3, 3, 6]
   \<and> rank (hd (rankedTeamsData exampleBoard)) = 1"
proof -
  have h1: "exampleBoard \<noteq> []" by (simp add: exampleBoard_def)
  have h2: "sorted_wrt (\<lambda>a b. points b \<le> points a) exampleBoard"
    by (simp add: exampleBoard_def)
  have h3: "map points exampleBoard = [50, 50, 30, 30, 30, 10]"
    by (simp add: exampleBoard_def)
  from dense_rank_rule [OF h1 h2] h1 h2 h3 show ?thesis by blast
qed

subsection \<open>The whole leaderboard computation\<close>

lemma fetchedPoints_eq:
  "fetchedPoints sc t = (case sc (team_id t) of None \<Rightarrow> 0 | Some s \<Rightarrow> totalScore s)"
  by (simp add: fetchedPoints_def split: option.splits)

lemma rankedTeamsData_truncate: "map Team.truncate (rankedTeamsData ts) = ts"
  by (cases ts) (simp_all add: rankedTeamsData_def truncate_withRank truncate_rankLoop)

lemma rankedTeamsData_points: "map points (rankedTeamsData ts) = map points ts"
  by (cases ts) (simp_all add: rankedTeamsData_def points_withRank points_rankLoop)

lemma rankedTeamsData_length: "length (rankedTeamsData ts) = length ts"
  using arg_cong [OF rankedTeamsData_points, of length ts] by simp

lemma rankedTeamsData_rank_le:
  assumes "k < length ts"
  shows "rank (rankedTeamsData ts ! k) \<le> k + 1"
proof (cases ts)
  case Nil
  with assms show ?thesis by simp
next
  case (Cons t ts')
  show ?thesis
  proof (cases k)
    case 0
    then show ?thesis by (simp add: Cons rankedTeamsData_Cons rank_withRank)
  next
    case (Suc j)
    with assms Cons have "j < length ts'" by simp
    then have "rank (rankLoop 1 (points t) 1 ts' ! j) \<le> 1 + j + 1"
      by (intro rankLoop_rank_le) simp_all
    then show ?thesis by (simp add: Cons Suc rankedTeamsData_Cons)
  qed
qed

lemma rankedTeamsData_rank_sorted: "sorted (map rank (rankedTeamsData ts))"
proof (cases ts)
  case Nil
  then show ?thesis by (simp add: rankedTeamsData_def)
next
  case (Cons t ts')
  have "sorted (1 # map rank (rankLoop 1 (points t) 1 ts'))"
    by (rule rankLoop_rank_sorted) simp
  then show ?thesis by (simp add: Cons rankedTeamsData_Cons rank_withRank)
qed

lemma rankedTeamsData_adjacent:
  assumes "sorted_wrt (\<lambda>a b. points b \<le> points a) ts"
  shows "successively (\<lambda>a b. (rank a = rank b) = (points a = points b)) (rankedTeamsData ts)"
proof (cases ts)
  case Nil
  then show ?thesis by (simp add: rankedTeamsData_def)
next
  case (Cons t ts')
  from assms have "sorted_wrt (\<ge>) (points t # map points ts')"
    by (simp add: Cons sorted_wrt_map)
  then have "successively (\<lambda>a b. (rank a = rank b) = (points a = points b))
          (withRank t 1 # rankLoop 1 (points t) 1 ts')"
    by (intro rankLoop_adjacent) (simp_all add: rank_withRank points_withRank)
  then show ?thesis by (simp add: Cons rankedTeamsData_Cons)
qed

text \<open>
  Claim C10. For every list of active teams and every map of fetched scores, the ranking
  computation returns exactly the input teams, each with its fetched total as points (0
  when it has no score entry), in non-increasing order of points; the first team has
  rank 1, every rank is at most the 1-based position, ranks never decrease along the
  list, and two neighbours share a rank exactly when they share their points.
\<close>

theorem leaderboard_invariants:
  "mset (map Team.truncate (leaderboardOf activeTeams allScores)) =
     mset (map (\<lambda>t. t\<lparr>points := (case allScores (team_id t) of
                                     None \<Rightarrow> 0 | Some s \<Rightarrow> totalScore s)\<rparr>) activeTeams)
   \<and> sorted_wrt (\<lambda>a b. points b \<le> points a) (leaderboardOf activeTeams allScores)
   \<and> (activeTeams \<noteq> [] \<longrightarrow> rank (hd (leaderboardOf activeTeams allScores)) = 1)
   \<and> (\<forall>k < length (leaderboardOf activeTeams allScores).
         rank (leaderboardOf activeTeams allScores ! k) \<le> k + 1)
   \<and> sorted (map rank (leaderboardOf activeTeams allScores))
   \<and> (\<forall>k. Suc k < length (leaderboardOf activeTeams allScores) \<longrightarrow>
         (rank (leaderboardOf activeTeams allScores ! k) =
            rank (leaderboardOf activeTeams allScores ! Suc k))
         = (points (leaderboardOf activeTeams allScores ! k) =
            points (leaderboardOf activeTeams allScores ! Suc k)))"
proof -
  define tws where "tws = teamsWithScores activeTeams allScores"
  define ta where "ta = teamsArray tws"
  define out where "out = leaderboardOf activeTeams allScores"
  have out: "out = rankedTeamsData ta"
    by (simp add: out_def ta_def tws_def leaderboardOf_def)
  have tws: "tws = map (\<lambda>t. t\<lparr>points := (case allScores (team_id t) of
                                     None \<Rightarrow> 0 | Some s \<Rightarrow> totalScore s)\<rparr>) activeTeams"
    by (simp add: tws_def teamsWithScores_def fetchedPoints_eq)
  have trunc: "map Team.truncate out = ta"
    by (simp add: out rankedTeamsData_truncate)
  have "mset ta = mset tws"
    by (simp add: ta_def teamsArray_def mset_js_sort)
  with trunc tws have p1: "mset (map Team.truncate out) =
     mset (map (\<lambda>t. t\<lparr>points := (case allScores (team_id t) of
                                     None \<Rightarrow> 0 | Some s \<Rightarrow> totalScore s)\<rparr>) activeTeams)"
    by simp
  have sta: "sorted_wrt (\<lambda>a b. points b \<le> points a) ta"
    by (simp add: ta_def sorted_teamsArray)
  then have "sorted_wrt (\<ge>) (map points ta)" by (simp add: sorted_wrt_map)
  then have "sorted_wrt (\<ge>) (map points out)" by (simp add: out rankedTeamsData_points)
  then have p2: "sorted_wrt (\<lambda>a b. points b \<le> points a) out" by (simp add: sorted_wrt_map)
  have len: "length out = length ta" by (simp add: out rankedTeamsData_length)
  have lta: "length ta = length activeTeams"
    by (simp add: ta_def teamsArray_def length_js_sort tws_def teamsWithScores_def)
  have p3: "activeTeams \<noteq> [] \<longrightarrow> rank (hd out) = 1"
  proof
    assume "activeTeams \<noteq> []"
    with lta obtain t ts' where "ta = t # ts'" by (cases ta) auto
    then show "rank (hd out) = 1" by (simp add: out rankedTeamsData_Cons rank_withRank)
  qed
  have p4: "\<forall>k < length out. rank (out ! k) \<le> k + 1"
    unfolding out by (intro allI impI rankedTeamsData_rank_le) (simp add: rankedTeamsData_length)
  have p5: "sorted (map rank out)" by (simp add: out rankedTeamsData_rank_sorted)
  have "successively (\<lambda>a b. (rank a = rank b) = (points a = points b)) out"
    unfolding out using sta by (rule rankedTeamsData_adjacent)
  then have p6: "\<forall>k. Suc k < length out \<longrightarrow>
      (rank (out ! k) = rank (out ! Suc k)) = (points (out ! k) = points (out ! Suc k))"
    by (auto dest: successively_nth)
  from p1 p2 p3 p4 p5 p6 show ?thesis unfolding out_def by blast
qed

lemma exampleLeaderboard:
  "leaderboardOf exampleTeams exampleScores =
     [\<lparr>team_id = ''d'', name = ''Risovi'', mascotId = 4, isActive = Some True, points = 70, rank = 1\<rparr>,
      \<lparr>team_id = ''b'', name = ''Vukovi'', mascotId = 2, isActive = None, points = 40, rank = 2\<rparr>,
      \<lparr>team_id = ''c'', name = ''Orlovi'', mascotId = 3, isActive = Some True, points = 40, rank = 2\<rparr>,
      \<lparr>team_id = ''a'', name = ''Lavovi'', mascotId = 1, isActive = Some True, points = 0, rank = 4\<rparr>]"
  by (simp add: leaderboardOf_def teamsWithScores_def teamsArray_def rankedTeamsData_def
      exampleTeams_def exampleScores_def fetchedPoints_def byPointsDesc_def withRank_def
      Team.extend_def RankedTeam.fields_def)

theorem leaderboard_invariants_witness:
  "exampleTeams \<noteq> []
   \<and> map rank (leaderboardOf exampleTeams exampleScores) = [1, 2, 2, 4]
   \<and> map points (leaderboardOf exampleTeams exampleScores) = [70, 40, 40, 0]
   \<and> rank (hd (leaderboardOf exampleTeams exampleScores)) = 1
   \<and> rank (leaderboardOf exampleTeams exampleScores ! 3) \<le> 3 + 1
   \<and> (rank (leaderboardOf exampleTeams exampleScores ! 1) =
        rank (leaderboardOf exampleTeams exampleScores ! Suc 1))
      = (points (leaderboardOf exampleTeams exampleScores ! 1) =
         points (leaderboardOf exampleTeams exampleScores ! Suc 1))"
proof -
  have ne: "exampleTeams \<noteq> []" by (simp add: exampleTeams_def)
  have len: "length (leaderboardOf exampleTeams exampleScores) = 4"
    by (simp add: exampleLeaderboard)
  note inv = leaderboard_invariants [of exampleTeams exampleScores]
  from inv ne have first: "rank (hd (leaderboardOf exampleTeams exampleScores)) = 1"
    by blast
  from inv have "\<forall>k < length (leaderboardOf exampleTeams exampleScores).
         rank (leaderboardOf exampleTeams exampleScores ! k) \<le> k + 1"
    by (elim conjE)
  from this [rule_format, of 3] len
  have pos: "rank (leaderboardOf exampleTeams exampleScores ! 3) \<le> 3 + 1"
    by simp
  from inv have "\<forall>k. Suc k < length (leaderboardOf exampleTeams exampleScores) \<longrightarrow>
         (rank (leaderboardOf exampleTeams exampleScores ! k) =
            rank (leaderboardOf exampleTeams exampleScores ! Suc k))
         = (points (leaderboardOf exampleTeams exampleScores ! k) =
            points (leaderboardOf exampleTeams exampleScores ! Suc k))"
    by (elim conjE)
  from this [rule_format, of 1] len
  have adj: "(rank (leaderboardOf exampleTeams exampleScores ! 1) =
        rank (leaderboardOf exampleTeams exampleScores ! Suc 1))
      = (points (leaderboardOf exampleTeams exampleScores ! 1) =
         points (leaderboardOf exampleTeams exampleScores ! Suc 1))"
    by simp
  have ranks: "map rank (leaderboardOf exampleTeams exampleScores) = [1, 2, 2, 4]"
    and pts: "map points (leaderboardOf exampleTeams exampleScores) = [70, 40, 40, 0]"
    by (simp_all add: exampleLeaderboard)
  from ne ranks pts first pos adj show ?thesis by blast
qed

section \<open>The advance handler\<close>

text \<open>On a positive dividend the remainder of JavaScript is the \<open>mod\<close> of HOL.\<close>

lemma js_rem_pos: "0 < a \<Longrightarrow> js_rem a QUESTIONS_PER_CATEGORY = a mod QUESTIONS_PER_CATEGORY"
  by (simp add: js_rem_def QUESTIONS_PER_CATEGORY_def)

lemma handleNextStep_fires:
  assumes "truthy (gameCode pg)" and "game pg = Some g" and "questionOrder g = Some order"
    and "\<not> isNavigating pg"
  shows "handleNextStep pg =
     (pg\<lparr>isNavigating := True\<rparr>,
      Some (nextStep (the (gameCode pg)) (currentQuestionIndex g) (int (length order))))"
  using assms by (simp add: handleNextStep_def)

lemma handleNextStep_guarded: "isNavigating pg \<Longrightarrow> handleNextStep pg = (pg, None)"
  by (simp add: handleNextStep_def split: option.splits)

lemma nextStep_end:
  "i + 1 \<ge> n \<Longrightarrow> nextStep code i n =
     \<lparr>writeCode = code, updates = noUpdates\<lparr>upd_status := Some game_end\<rparr>,
      nextRoute = ''/admin/winners?gameCode='' @ code, shouldNavigate = True\<rparr>"
  by (simp add: nextStep_def Let_def)

lemma nextStep_break:
  "i + 1 < n \<Longrightarrow> 0 < i + 1 \<Longrightarrow> (i + 1) mod QUESTIONS_PER_CATEGORY = 0 \<Longrightarrow> nextStep code i n =
     \<lparr>writeCode = code, updates = noUpdates\<lparr>upd_status := Some leaderboard\<rparr>,
      nextRoute = ''/admin/break?gameCode='' @ code, shouldNavigate = False\<rparr>"
  by (simp add: nextStep_def Let_def js_rem_pos)

lemma nextStep_question:
  "i + 1 < n \<Longrightarrow> \<not> (0 < i + 1 \<and> (i + 1) mod QUESTIONS_PER_CATEGORY = 0) \<Longrightarrow> nextStep code i n =
     \<lparr>writeCode = code,
      updates = noUpdates\<lparr>upd_status := Some question_display,
                          upd_currentQuestionIndex := Some (i + 1),
                          upd_resultsReady := Some (Some False)\<rparr>,
      nextRoute = ''/admin/question?gameCode='' @ code, shouldNavigate = True\<rparr>"
  by (cases "0 < i + 1") (simp_all add: nextStep_def Let_def js_rem_pos)

lemma showsAdvanceButton_conv: "showsAdvanceButton pg = (\<not> truthy (displayError pg))"
  by (simp add: showsAdvanceButton_def render_def)

lemma showsAdvanceButton_pageOf: "showsAdvanceButton (pageOf g)"
  by (simp add: showsAdvanceButton_conv displayError_def truthy_def pageOf_def)

lemma step_Click_fires:
  assumes "showsAdvanceButton (page w)" and "handleNextStep (page w) = (pg', Some pend)"
  shows "step w Click = w\<lparr>page := pg', inFlight := inFlight w @ [pend],
            writes := writes w @ [(writeCode pend, updates pend)]\<rparr>"
  using assms by simp

lemma step_Click_hidden: "\<not> showsAdvanceButton (page w) \<Longrightarrow> step w Click = w"
  by simp

text \<open>
  Claim C2. Whenever the handler fires (a game code, a snapshot with its question order,
  no navigation under way) and the next index is at or past the end of the question
  order, the one write it issues names the status \<open>game_end\<close> and no other field:
  applied to the game it changes the status only. No condition on the category boundary
  is assumed: this branch comes first. A click on a page that shows the advance button
  logs exactly this write (on the error screen there is no button, and nothing is
  written).
\<close>

theorem advance_end_of_game:
  assumes "truthy (gameCode pg)" and "game pg = Some g" and "questionOrder g = Some order"
    and "\<not> isNavigating pg"
    and "currentQuestionIndex g + 1 \<ge> int (length order)"
  shows "\<exists>pend. handleNextStep pg = (pg\<lparr>isNavigating := True\<rparr>, Some pend)
       \<and> updates pend = \<lparr>upd_status = Some game_end, upd_currentQuestionIndex = None,
            upd_questionOrder = None, upd_questions = None, upd_resultsReady = None\<rparr>
       \<and> applyUpdate g (updates pend) = g\<lparr>status := game_end\<rparr>
       \<and> currentQuestionIndex (applyUpdate g (updates pend)) = currentQuestionIndex g
       \<and> resultsReady (applyUpdate g (updates pend)) = resultsReady g
       \<and> writes (step (w\<lparr>page := pg\<rparr>) Click) =
            (if showsAdvanceButton pg then writes w @ [(the (gameCode pg), updates pend)]
             else writes w)"
proof -
  let ?pend = "nextStep (the (gameCode pg)) (currentQuestionIndex g) (int (length order))"
  have h: "handleNextStep pg = (pg\<lparr>isNavigating := True\<rparr>, Some ?pend)"
    using assms(1-4) by (rule handleNextStep_fires)
  have p: "?pend = \<lparr>writeCode = the (gameCode pg),
      updates = noUpdates\<lparr>upd_status := Some game_end\<rparr>,
      nextRoute = ''/admin/winners?gameCode='' @ the (gameCode pg), shouldNavigate = True\<rparr>"
    using assms(5) by (rule nextStep_end)
  have u: "updates ?pend = \<lparr>upd_status = Some game_end, upd_currentQuestionIndex = None,
            upd_questionOrder = None, upd_questions = None, upd_resultsReady = None\<rparr>"
    by (simp add: p noUpdates_def)
  have a: "applyUpdate g (updates ?pend) = g\<lparr>status := game_end\<rparr>"
    by (simp add: u applyUpdate_def)
  have w: "writes (step (w\<lparr>page := pg\<rparr>) Click) =
            (if showsAdvanceButton pg then writes w @ [(the (gameCode pg), updates ?pend)]
             else writes w)"
    using h by (simp add: p)
  from h u a w show ?thesis by (intro exI [of _ ?pend]) simp
qed

theorem advance_end_of_game_witness:
  "truthy (gameCode (pageOf (gameAt 15)))
   \<and> questionOrder (gameAt 15) = Some sixteenQuestions
   \<and> currentQuestionIndex (gameAt 15) + 1 \<ge> int (length sixteenQuestions)
   \<and> (currentQuestionIndex (gameAt 15) + 1) mod QUESTIONS_PER_CATEGORY = 0
   \<and> map_option updates (snd (handleNextStep (pageOf (gameAt 15)))) =
        Some \<lparr>upd_status = Some game_end, upd_currentQuestionIndex = None,
              upd_questionOrder = None, upd_questions = None, upd_resultsReady = None\<rparr>
   \<and> writes (step (worldOf (pageOf (gameAt 15))) Click) =
        [(''KVIZ42'', \<lparr>upd_status = Some game_end, upd_currentQuestionIndex = None,
              upd_questionOrder = None, upd_questions = None, upd_resultsReady = None\<rparr>)]"
proof -
  have h1: "truthy (gameCode (pageOf (gameAt 15)))" by (simp add: pageOf_def truthy_def)
  have h2: "game (pageOf (gameAt 15)) = Some (gameAt 15)" by (simp add: pageOf_def)
  have h3: "questionOrder (gameAt 15) = Some sixteenQuestions" by (simp add: gameAt_def)
  have h4: "\<not> isNavigating (pageOf (gameAt 15))" by (simp add: pageOf_def)
  have h5: "currentQuestionIndex (gameAt 15) + 1 \<ge> int (length sixteenQuestions)"
    by (simp add: gameAt_def sixteenQuestions_def)
  have h6: "(currentQuestionIndex (gameAt 15) + 1) mod QUESTIONS_PER_CATEGORY = 0"
    by (simp add: gameAt_def QUESTIONS_PER_CATEGORY_def)
  have w: "worldOf (pageOf (gameAt 15))\<lparr>page := pageOf (gameAt 15)\<rparr> = worldOf (pageOf (gameAt 15))"
    by (simp add: worldOf_def)
  have c: "the (gameCode (pageOf (gameAt 15))) = ''KVIZ42''" by (simp add: pageOf_def)
  have e: "writes (worldOf (pageOf (gameAt 15))) = []" by (simp add: worldOf_def)
  have b: "showsAdvanceButton (pageOf (gameAt 15)) = True" by (simp add: showsAdvanceButton_pageOf)
  from advance_end_of_game [OF h1 h2 h3 h4 h5, of "worldOf (pageOf (gameAt 15))"]
  obtain pend where "handleNextStep (pageOf (gameAt 15)) = ((pageOf (gameAt 15))\<lparr>isNavigating := True\<rparr>, Some pend)"
    and "updates pend = \<lparr>upd_status = Some game_end, upd_currentQuestionIndex = None,
            upd_questionOrder = None, upd_questions = None, upd_resultsReady = None\<rparr>"
    and "writes (step (worldOf (pageOf (gameAt 15))\<lparr>page := pageOf (gameAt 15)\<rparr>) Click) =
           (if showsAdvanceButton (pageOf (gameAt 15))
            then writes (worldOf (pageOf (gameAt 15)))
                   @ [(the (gameCode (pageOf (gameAt 15))), updates pend)]
            else writes (worldOf (pageOf (gameAt 15))))"
    by blast
  with h1 h3 h5 h6 show ?thesis by (simp only: w c e b if_True) simp
qed

text \<open>
  Claim C3. Whenever the handler fires, the next index is inside the question order, is
  positive and is a multiple of \<open>QUESTIONS_PER_CATEGORY\<close> = 8, the one write it issues
  names the status \<open>leaderboard\<close> and no other field: the question index and the
  results flag of the game stay as they are. A click on a page that shows the advance
  button logs exactly this write.
\<close>

theorem advance_category_break:
  assumes "truthy (gameCode pg)" and "game pg = Some g" and "questionOrder g = Some order"
    and "\<not> isNavigating pg"
    and "currentQuestionIndex g + 1 < int (length order)"
    and "0 < currentQuestionIndex g + 1"
    and "(currentQuestionIndex g + 1) mod QUESTIONS_PER_CATEGORY = 0"
  shows "QUESTIONS_PER_CATEGORY = 8
       \<and> (\<exists>pend. handleNextStep pg = (pg\<lparr>isNavigating := True\<rparr>, Some pend)
       \<and> updates pend = \<lparr>upd_status = Some leaderboard, upd_currentQuestionIndex = None,
            upd_questionOrder = None, upd_questions = None, upd_resultsReady = None\<rparr>
       \<and> applyUpdate g (updates pend) = g\<lparr>status := leaderboard\<rparr>
       \<and> currentQuestionIndex (applyUpdate g (updates pend)) = currentQuestionIndex g
       \<and> resultsReady (applyUpdate g (updates pend)) = resultsReady g
       \<and> writes (step (w\<lparr>page := pg\<rparr>) Click) =
            (if showsAdvanceButton pg then writes w @ [(the (gameCode pg), updates pend)]
             else writes w))"
proof -
  let ?pend = "nextStep (the (gameCode pg)) (currentQuestionIndex g) (int (length order))"
  have h: "handleNextStep pg = (pg\<lparr>isNavigating := True\<rparr>, Some ?pend)"
    using assms(1-4) by (rule handleNextStep_fires)
  have p: "?pend = \<lparr>writeCode = the (gameCode pg),
      updates = noUpdates\<lparr>upd_status := Some leaderboard\<rparr>,
      nextRoute = ''/admin/break?gameCode='' @ the (gameCode pg), shouldNavigate = False\<rparr>"
    using assms(5-7) by (rule nextStep_break)
  have u: "updates ?pend = \<lparr>upd_status = Some leaderboard, upd_currentQuestionIndex = None,
            upd_questionOrder = None, upd_questions = None, upd_resultsReady = None\<rparr>"
    by (simp add: p noUpdates_def)
  have a: "applyUpdate g (updates ?pend) = g\<lparr>status := leaderboard\<rparr>"
    by (simp add: u applyUpdate_def)
  have w: "writes (step (w\<lparr>page := pg\<rparr>) Click) =
            (if showsAdvanceButton pg then writes w @ [(the (gameCode pg), updates ?pend)]
             else writes w)"
    using h by (simp add: p)
  have "\<exists>pend. handleNextStep pg = (pg\<lparr>isNavigating := True\<rparr>, Some pend)
       \<and> updates pend = \<lparr>upd_status = Some leaderboard, upd_currentQuestionIndex = None,
            upd_questionOrder = None, upd_questions = None, upd_resultsReady = None\<rparr>
       \<and> applyUpdate g (updates pend) = g\<lparr>status := leaderboard\<rparr>
       \<and> currentQuestionIndex (applyUpdate g (updates pend)) = currentQuestionIndex g
       \<and> resultsReady (applyUpdate g (updates pend)) = resultsReady g
       \<and> writes (step (w\<lparr>page := pg\<rparr>) Click) =
            (if showsAdvanceButton pg then writes w @ [(the (gameCode pg), updates pend)]
             else writes w)"
    using h u a w by (intro exI [of _ ?pend]) simp
  then show ?thesis by (simp add: QUESTIONS_PER_CATEGORY_def)
qed

theorem advance_category_break_witness:
  "truthy (gameCode (pageOf (gameAt 7)))
   \<and> currentQuestionIndex (gameAt 7) + 1 < int (length sixteenQuestions)
   \<and> (currentQuestionIndex (gameAt 7) + 1) mod QUESTIONS_PER_CATEGORY = 0
   \<and> map_option updates (snd (handleNextStep (pageOf (gameAt 7)))) =
        Some \<lparr>upd_status = Some leaderboard, upd_currentQuestionIndex = None,
              upd_questionOrder = None, upd_questions = None, upd_resultsReady = None\<rparr>
   \<and> map_option (\<lambda>pend. status (applyUpdate (gameAt 7) (updates pend)))
        (snd (handleNextStep (pageOf (gameAt 7)))) = Some leaderboard
   \<and> map_option (\<lambda>pend. currentQuestionIndex (applyUpdate (gameAt 7) (updates pend)))
        (snd (handleNextStep (pageOf (gameAt 7)))) = Some 7"
proof -
  have h1: "truthy (gameCode (pageOf (gameAt 7)))" by (simp add: pageOf_def truthy_def)
  have h2: "game (pageOf (gameAt 7)) = Some (gameAt 7)" by (simp add: pageOf_def)
  have h3: "questionOrder (gameAt 7) = Some sixteenQuestions" by (simp add: gameAt_def)
  have h4: "\<not> isNavigating (pageOf (gameAt 7))" by (simp add: pageOf_def)
  have h5: "currentQuestionIndex (gameAt 7) + 1 < int (length sixteenQuestions)"
    by (simp add: gameAt_def sixteenQuestions_def)
  have h6: "0 < currentQuestionIndex (gameAt 7) + 1" by (simp add: gameAt_def)
  have h7: "(currentQuestionIndex (gameAt 7) + 1) mod QUESTIONS_PER_CATEGORY = 0"
    by (simp add: gameAt_def QUESTIONS_PER_CATEGORY_def)
  have i: "currentQuestionIndex (gameAt 7) = 7" by (simp add: gameAt_def)
  from advance_category_break [OF h1 h2 h3 h4 h5 h6 h7]
  obtain pend where "handleNextStep (pageOf (gameAt 7)) = ((pageOf (gameAt 7))\<lparr>isNavigating := True\<rparr>, Some pend)"
    and "updates pend = \<lparr>upd_status = Some leaderboard, upd_currentQuestionIndex = None,
            upd_questionOrder = None, upd_questions = None, upd_resultsReady = None\<rparr>"
    and "applyUpdate (gameAt 7) (updates pend) = (gameAt 7)\<lparr>status := leaderboard\<rparr>"
    by blast
  with h1 h5 h7 i show ?thesis by simp
qed

text \<open>
  Claim C4. Whenever the handler fires and neither the end of the game nor the category
  boundary is reached, the one write it issues sets the status to \<open>question_display\<close>,
  the question index to the next index and the results flag to \<^verbatim>\<open>false\<close>. A click on a
  page that shows the advance button logs exactly this write.
\<close>

theorem advance_next_question:
  assumes "truthy (gameCode pg)" and "game pg = Some g" and "questionOrder g = Some order"
    and "\<not> isNavigating pg"
    and "\<not> currentQuestionIndex g + 1 \<ge> int (length order)"
    and "\<not> (0 < currentQuestionIndex g + 1 \<and> (currentQuestionIndex g + 1) mod QUESTIONS_PER_CATEGORY = 0)"
  shows "\<exists>pend. handleNextStep pg = (pg\<lparr>isNavigating := True\<rparr>, Some pend)
       \<and> updates pend = \<lparr>upd_status = Some question_display,
            upd_currentQuestionIndex = Some (currentQuestionIndex g + 1),
            upd_questionOrder = None, upd_questions = None,
            upd_resultsReady = Some (Some False)\<rparr>
       \<and> applyUpdate g (updates pend) =
            g\<lparr>status := question_display,
              currentQuestionIndex := currentQuestionIndex g + 1,
              resultsReady := Some False\<rparr>
       \<and> writes (step (w\<lparr>page := pg\<rparr>) Click) =
            (if showsAdvanceButton pg then writes w @ [(the (gameCode pg), updates pend)]
             else writes w)"
proof -
  let ?pend = "nextStep (the (gameCode pg)) (currentQuestionIndex g) (int (length order))"
  have h: "handleNextStep pg = (pg\<lparr>isNavigating := True\<rparr>, Some ?pend)"
    using assms(1-4) by (rule handleNextStep_fires)
  from assms(5) have lt: "currentQuestionIndex g + 1 < int (length order)" by simp
  have p: "?pend = \<lparr>writeCode = the (gameCode pg),
      updates = noUpdates\<lparr>upd_status := Some question_display,
                          upd_currentQuestionIndex := Some (currentQuestionIndex g + 1),
                          upd_resultsReady := Some (Some False)\<rparr>,
      nextRoute = ''/admin/question?gameCode='' @ the (gameCode pg), shouldNavigate = True\<rparr>"
    using lt assms(6) by (rule nextStep_question)
  have u: "updates ?pend = \<lparr>upd_status = Some question_display,
            upd_currentQuestionIndex = Some (currentQuestionIndex g + 1),
            upd_questionOrder = None, upd_questions = None,
            upd_resultsReady = Some (Some False)\<rparr>"
    by (simp add: p noUpdates_def)
  have a: "applyUpdate g (updates ?pend) =
            g\<lparr>status := question_display,
              currentQuestionIndex := currentQuestionIndex g + 1,
              resultsReady := Some False\<rparr>"
    by (simp add: u applyUpdate_def)
  have w: "writes (step (w\<lparr>page := pg\<rparr>) Click) =
            (if showsAdvanceButton pg then writes w @ [(the (gameCode pg), updates ?pend)]
             else writes w)"
    using h by (simp add: p)
  from h u a w show ?thesis by (intro exI [of _ ?pend]) simp
qed

theorem advance_next_question_witness:
  "truthy (gameCode (pageOf (gameAt 2)))
   \<and> \<not> currentQuestionIndex (gameAt 2) + 1 \<ge> int (length sixteenQuestions)
   \<and> (currentQuestionIndex (gameAt 2) + 1) mod QUESTIONS_PER_CATEGORY = 3
   \<and> map_option (\<lambda>pend. status (applyUpdate (gameAt 2) (updates pend)))
        (snd (handleNextStep (pageOf (gameAt 2)))) = Some question_display
   \<and> map_option (\<lambda>pend. currentQuestionIndex (applyUpdate (gameAt 2) (updates pend)))
        (snd (handleNextStep (pageOf (gameAt 2)))) = Some 3
   \<and> map_option (\<lambda>pend. resultsReady (applyUpdate (gameAt 2) (updates pend)))
        (snd (handleNextStep (pageOf (gameAt 2)))) = Some (Some False)"
proof -
  have h1: "truthy (gameCode (pageOf (gameAt 2)))" by (simp add: pageOf_def truthy_def)
  have h2: "game (pageOf (gameAt 2)) = Some (gameAt 2)" by (simp add: pageOf_def)
  have h3: "questionOrder (gameAt 2) = Some sixteenQuestions" by (simp add: gameAt_def)
  have h4: "\<not> isNavigating (pageOf (gameAt 2))" by (simp add: pageOf_def)
  have h5: "\<not> currentQuestionIndex (gameAt 2) + 1 \<ge> int (length sixteenQuestions)"
    by (simp add: gameAt_def sixteenQuestions_def)
  have h6: "\<not> (0 < currentQuestionIndex (gameAt 2) + 1
              \<and> (currentQuestionIndex (gameAt 2) + 1) mod QUESTIONS_PER_CATEGORY = 0)"
    by (simp add: gameAt_def QUESTIONS_PER_CATEGORY_def)
  have h7: "(currentQuestionIndex (gameAt 2) + 1) mod QUESTIONS_PER_CATEGORY = 3"
    by (simp add: gameAt_def QUESTIONS_PER_CATEGORY_def)
  have i: "currentQuestionIndex (gameAt 2) = 2" by (simp add: gameAt_def)
  from advance_next_question [OF h1 h2 h3 h4 h5 h6]
  obtain pend where "handleNextStep (pageOf (gameAt 2)) = ((pageOf (gameAt 2))\<lparr>isNavigating := True\<rparr>, Some pend)"
    and "applyUpdate (gameAt 2) (updates pend) =
            (gameAt 2)\<lparr>status := question_display,
              currentQuestionIndex := currentQuestionIndex (gameAt 2) + 1,
              resultsReady := Some False\<rparr>"
    by blast
  with h1 h5 h7 i show ?thesis by simp
qed

section \<open>The in-flight guard\<close>

lemma step_Click_guarded: "isNavigating (page w) \<Longrightarrow> step w Click = w"
  by (simp add: handleNextStep_guarded)

lemma run_Clicks_guarded: "isNavigating (page w) \<Longrightarrow> run w (replicate n Click) = w"
  by (induction n) (simp_all add: run_def step_Click_guarded del: step.simps)

lemma run_Clicks_hidden:
  "\<not> showsAdvanceButton (page w) \<Longrightarrow> run w (replicate n Click) = w"
  by (induction n) (simp_all add: run_def step_Click_hidden del: step.simps)

lemma run_Cons: "run w (e # es) = run (step w e) es"
  by (simp add: run_def)

lemma run_Nil: "run w [] = w"
  by (simp add: run_def)

lemma run_append: "run w (es @ fs) = run (run w es) fs"
  by (simp add: run_def)

text \<open>The write of each branch names the status of the specification's rule.\<close>

lemma nextStep_status:
  "upd_status (updates (nextStep code i n)) = Some (targetStatus i n)"
proof -
  consider "i + 1 \<ge> n"
    | "i + 1 < n" and "0 < i + 1" and "(i + 1) mod QUESTIONS_PER_CATEGORY = 0"
    | "i + 1 < n" and "\<not> (0 < i + 1 \<and> (i + 1) mod QUESTIONS_PER_CATEGORY = 0)"
    by linarith
  then show ?thesis
  proof cases
    case 1
    then show ?thesis by (simp add: nextStep_end targetStatus_def noUpdates_def)
  next
    case 2
    then show ?thesis by (simp add: nextStep_break targetStatus_def noUpdates_def)
  next
    case 3
    then show ?thesis by (auto simp: nextStep_question targetStatus_def noUpdates_def)
  qed
qed

lemma nextStep_writeCode: "writeCode (nextStep code i n) = code"
  by (simp add: nextStep_def Let_def)

text \<open>
  Claim C9, as the code has it. When the handler fires on a page that shows the advance
  button, the click issues one write, which names the status of the transition rule, and
  raises the guard. Every further click while that write is in flight returns at the
  guard, whatever snapshot the page holds by then: the log of writes has exactly one new
  entry and one handler is suspended. When the write fails, the guard is lowered and the
  failure message is set. The page then renders its error screen, which has no advance
  button, so that no further click reaches the handler while the message stands; once the
  error cell is cleared, the next click issues the write again.
\<close>

theorem advance_in_flight_guard:
  assumes "truthy (gameCode (page w))" and "game (page w) = Some g"
    and "questionOrder g = Some order" and "\<not> isNavigating (page w)"
    and "showsAdvanceButton (page w)" and "inFlight w = []"
  shows "\<exists>pend.
      pend = nextStep (the (gameCode (page w))) (currentQuestionIndex g) (int (length order))
    \<and> writeCode pend = the (gameCode (page w))
    \<and> upd_status (updates pend) =
        Some (targetStatus (currentQuestionIndex g) (int (length order)))
    \<and> status (applyUpdate g (updates pend)) =
        targetStatus (currentQuestionIndex g) (int (length order))
    \<and> writes (step w Click) = writes w @ [(writeCode pend, updates pend)]
    \<and> inFlight (step w Click) = [pend]
    \<and> isNavigating (page (step w Click))
    \<and> (\<forall>pg. isNavigating pg \<longrightarrow> handleNextStep pg = (pg, None))
    \<and> (\<forall>n. run w (Click # replicate n Click) = step w Click)
    \<and> writes (run w [Click, Click]) = writes w @ [(writeCode pend, updates pend)]
    \<and> inFlight (run w [Click, Click]) = [pend]
    \<and> \<not> isNavigating (page (run w [Click, Click, Settled False]))
    \<and> error (page (run w [Click, Click, Settled False])) = Some ''Failed to update game state''
    \<and> game (page (run w [Click, Click, Settled False])) = game (page w)
    \<and> inFlight (run w [Click, Click, Settled False]) = []
    \<and> render (page (run w [Click, Click, Settled False])) =
        ErrorScreen ''Failed to update game state''
    \<and> \<not> showsAdvanceButton (page (run w [Click, Click, Settled False]))
    \<and> (\<forall>n. run w ([Click, Click, Settled False] @ replicate n Click) =
             run w [Click, Click, Settled False])
    \<and> writes (run w [Click, Click, Settled False, Click]) =
        writes w @ [(writeCode pend, updates pend)]
    \<and> writes (step ((run w [Click, Click, Settled False])
                      \<lparr>page := (page (run w [Click, Click, Settled False]))\<lparr>error := None\<rparr>\<rparr>)
                Click) =
        writes w @ [(writeCode pend, updates pend), (writeCode pend, updates pend)]"
proof -
  let ?pend = "nextStep (the (gameCode (page w))) (currentQuestionIndex g) (int (length order))"
  let ?u = "(writeCode ?pend, updates ?pend)"
  let ?w1 = "w\<lparr>page := (page w)\<lparr>isNavigating := True\<rparr>, inFlight := [?pend],
            writes := writes w @ [?u]\<rparr>"
  have h: "handleNextStep (page w) = ((page w)\<lparr>isNavigating := True\<rparr>, Some ?pend)"
    using assms(1-4) by (rule handleNextStep_fires)
  have s1: "step w Click = ?w1"
    using step_Click_fires [OF assms(5) h] assms(6) by simp
  have shown: "\<not> truthy (displayError (page w))"
    using assms(5) by (simp add: showsAdvanceButton_conv)
  then have noerr: "\<not> truthy (error (page w))" and nogerr: "\<not> truthy (gameError (page w))"
    by (auto simp: displayError_def split: if_splits)
  have c1: "writeCode ?pend = the (gameCode (page w))" by (rule nextStep_writeCode)
  have c2: "upd_status (updates ?pend) =
        Some (targetStatus (currentQuestionIndex g) (int (length order)))"
    by (rule nextStep_status)
  have c3: "status (applyUpdate g (updates ?pend)) =
        targetStatus (currentQuestionIndex g) (int (length order))"
    by (simp add: applyUpdate_def c2)
  have nav1: "isNavigating (page ?w1)" by simp
  have g: "\<forall>pg. isNavigating pg \<longrightarrow> handleNextStep pg = (pg, None)"
    by (simp add: handleNextStep_guarded)
  have many: "\<forall>n. run w (Click # replicate n Click) = ?w1"
    using run_Clicks_guarded [OF nav1] by (simp add: run_Cons s1 del: step.simps)
  have s2: "run w [Click, Click] = ?w1"
    using step_Click_guarded [OF nav1] by (simp add: run_Cons run_Nil s1 del: step.simps)
  let ?pg3 = "(page w)\<lparr>error := Some ''Failed to update game state'', isNavigating := False\<rparr>"
  let ?w3 = "w\<lparr>page := ?pg3, inFlight := [], writes := writes w @ [?u]\<rparr>"
  have "run w [Click, Click, Settled False] = step (run w [Click, Click]) (Settled False)"
    by (simp add: run_def del: step.simps)
  then have s3: "run w [Click, Click, Settled False] = ?w3"
    by (simp add: s2 handleNextStep_settled_def)
  have r3: "render ?pg3 = ErrorScreen ''Failed to update game state''"
    by (simp add: render_def displayError_def truthy_def)
  then have hid3: "\<not> showsAdvanceButton (page ?w3)"
    by (simp add: showsAdvanceButton_def)
  have stuck: "\<forall>n. run w ([Click, Click, Settled False] @ replicate n Click) = ?w3"
    using run_Clicks_hidden [OF hid3] by (simp only: run_append s3) simp
  have s4: "writes (run w [Click, Click, Settled False, Click]) = writes w @ [?u]"
    using stuck [rule_format, of 1] by simp
  let ?pg5 = "?pg3\<lparr>error := None\<rparr>"
  have shown5: "showsAdvanceButton ?pg5"
    using nogerr by (simp add: showsAdvanceButton_conv displayError_def truthy_def)
  have h5: "handleNextStep ?pg5 = (?pg5\<lparr>isNavigating := True\<rparr>, Some ?pend)"
    using handleNextStep_fires [of ?pg5 g order] assms(1-3) by simp
  have s5: "writes (step (?w3\<lparr>page := ?pg5\<rparr>) Click) = writes w @ [?u, ?u]"
    using step_Click_fires [of "?w3\<lparr>page := ?pg5\<rparr>" "?pg5\<lparr>isNavigating := True\<rparr>" ?pend]
      shown5 h5 by simp
  show ?thesis
    apply (rule exI [of _ ?pend])
    apply (simp only: s2 s4 stuck [rule_format] s3 s1 many [rule_format])
    apply (intro conjI allI)
    using c1 c2 c3 g r3 hid3 s5 apply simp_all
    done
qed

theorem advance_in_flight_guard_witness:
  "truthy (gameCode (page (worldOf (pageOf (gameAt 2)))))
   \<and> \<not> isNavigating (page (worldOf (pageOf (gameAt 2))))
   \<and> showsAdvanceButton (page (worldOf (pageOf (gameAt 2))))
   \<and> inFlight (worldOf (pageOf (gameAt 2))) = []
   \<and> map (\<lambda>u. upd_status (snd u)) (writes (run (worldOf (pageOf (gameAt 2))) [Click]))
       = [Some question_display]
   \<and> map (\<lambda>u. upd_status (snd u)) (writes (run (worldOf (pageOf (gameAt 2))) [Click, Click]))
       = [Some question_display]
   \<and> length (inFlight (run (worldOf (pageOf (gameAt 2))) [Click, Click])) = 1
   \<and> \<not> isNavigating (page (run (worldOf (pageOf (gameAt 2))) [Click, Click, Settled False]))
   \<and> render (page (run (worldOf (pageOf (gameAt 2))) [Click, Click, Settled False])) =
       ErrorScreen ''Failed to update game state''"
proof -
  let ?w = "worldOf (pageOf (gameAt 2))"
  have h1: "truthy (gameCode (page ?w))" by (simp add: worldOf_def pageOf_def truthy_def)
  have h2: "game (page ?w) = Some (gameAt 2)" by (simp add: worldOf_def pageOf_def)
  have h3: "questionOrder (gameAt 2) = Some sixteenQuestions" by (simp add: gameAt_def)
  have h4: "\<not> isNavigating (page ?w)" by (simp add: worldOf_def pageOf_def)
  have h5: "showsAdvanceButton (page ?w)" by (simp add: worldOf_def showsAdvanceButton_pageOf)
  have h6: "inFlight ?w = []" by (simp add: worldOf_def)
  have e: "writes ?w = []" by (simp add: worldOf_def)
  have r1: "run ?w [Click] = step ?w Click" by (simp add: run_def del: step.simps)
  have t: "targetStatus (currentQuestionIndex (gameAt 2)) (int (length sixteenQuestions))
             = question_display"
    by (simp add: targetStatus_def gameAt_def sixteenQuestions_def QUESTIONS_PER_CATEGORY_def)
  from advance_in_flight_guard [OF h1 h2 h3 h4 h5 h6]
  obtain pend where
      "upd_status (updates pend) =
         Some (targetStatus (currentQuestionIndex (gameAt 2)) (int (length sixteenQuestions)))"
    and "writes (step ?w Click) = writes ?w @ [(writeCode pend, updates pend)]"
    and "writes (run ?w [Click, Click]) = writes ?w @ [(writeCode pend, updates pend)]"
    and "inFlight (run ?w [Click, Click]) = [pend]"
    and "\<not> isNavigating (page (run ?w [Click, Click, Settled False]))"
    and "render (page (run ?w [Click, Click, Settled False])) =
           ErrorScreen ''Failed to update game state''"
    by blast
  with h1 h4 h5 h6 show ?thesis by (simp only: r1 e t) simp
qed

text \<open>
  The claim as stated fails in its last part: after the failed write the guard is down,
  but the page shows the error screen, and the click that would retry writes nothing.
\<close>

theorem advance_in_flight_guard_counterexample:
  "showsAdvanceButton (page (worldOf (pageOf (gameAt 2))))
   \<and> length (writes (run (worldOf (pageOf (gameAt 2))) [Click])) = 1
   \<and> isNavigating (page (run (worldOf (pageOf (gameAt 2))) [Click, Click, Settled False])) = False
   \<and> showsAdvanceButton (page (run (worldOf (pageOf (gameAt 2))) [Click, Click, Settled False]))
       = False
   \<and> length (writes (run (worldOf (pageOf (gameAt 2))) [Click, Click, Settled False, Click])) = 1"
  by (simp add: run_def worldOf_def pageOf_def gameAt_def handleNextStep_def truthy_def
      handleNextStep_settled_def showsAdvanceButton_def render_def displayError_def)

section \<open>The aggregation pass on fulfilled fetches\<close>

lemma rejected_fulfilled: "rejected (map (\<lambda>x. Inr (f x)) xs) = []"
  by (induction xs) auto

lemma fulfilled_fulfilled: "fulfilled (map (\<lambda>x. Inr (f x)) xs) = map f xs"
  by (induction xs) auto

lemma promiseAll_fulfilled: "promiseAll (map (\<lambda>x. Inr (f x)) xs) = Inr (map f xs)"
  by (simp add: promiseAll_def rejected_fulfilled fulfilled_fulfilled)

text \<open>
  When the question index is valid, the question is found and every fetch is fulfilled,
  the pass stores the question, the sorted answer board of the active teams and their
  leaderboard, clears the error and ends with the loading cell cleared. It fetches the
  teams, then the answer of every active team, then the scores.
\<close>

lemma processAndFetchData_fulfilled:
  assumes "questionOrder g = Some order"
    and "0 \<le> currentQuestionIndex g" and "currentQuestionIndex g < int (length order)"
    and "find (\<lambda>q. question_id q = order ! nat (currentQuestionIndex g)) (questions g) = Some qd"
    and "getTeamsForGame fx code = Inr allTeams"
    and "\<And>team. getTeamAnswerResult fx code (order ! nat (currentQuestionIndex g)) team
           = Inr (res team)"
    and "getAllScoresForGame fx code = Inr allScores"
  shows "processAndFetchData fx lc code g pg =
     (pg\<lparr>currentQuestion := Some qd,
        isLastQuestion := (currentQuestionIndex g \<ge> int (length order) - 1),
        teamAnswers := sortAnswers lc (processedAnswersArray
           (map (\<lambda>team. (team, res (team_id team)))
              (filter (\<lambda>team. isActive team \<noteq> Some False) allTeams))),
        rankedTeams := leaderboardOf (filter (\<lambda>team. isActive team \<noteq> Some False) allTeams) allScores,
        error := None,
        loading := False\<rparr>,
      GetTeamsForGame code
        # map (\<lambda>team. GetTeamAnswerResult code (order ! nat (currentQuestionIndex g)) (team_id team))
            (filter (\<lambda>team. isActive team \<noteq> Some False) allTeams)
        @ [GetAllScoresForGame code])"
  using assms
  by (simp add: processAndFetchData_def tryBlock_def Let_def promiseAll_fulfilled)

text \<open>The pass on the example game: its fetches, and the page it leaves.\<close>

lemma examplePass_calls:
  "snd (processAndFetchData exampleFetches codeOrderCompare ''KVIZ42'' revealGame (pageOf revealGame)) =
     [GetTeamsForGame ''KVIZ42'',
      GetTeamAnswerResult ''KVIZ42'' ''q03'' ''a'', GetTeamAnswerResult ''KVIZ42'' ''q03'' ''b'',
      GetTeamAnswerResult ''KVIZ42'' ''q03'' ''c'', GetTeamAnswerResult ''KVIZ42'' ''q03'' ''d'',
      GetAllScoresForGame ''KVIZ42'']"
  by (simp add: processAndFetchData_def tryBlock_def Let_def promiseAll_def revealGame_def
      gameAt_def sixteenQuestions_def exampleQuestion_def exampleFetches_def exampleTeams_def
      split: sum.splits option.splits list.splits)

lemma examplePass_page:
  "fst (processAndFetchData exampleFetches codeOrderCompare ''KVIZ42'' revealGame (pageOf revealGame)) =
     (pageOf revealGame)
       \<lparr>currentQuestion := Some exampleQuestion,
        isLastQuestion := False,
        teamAnswers := sortAnswers codeOrderCompare (processedAnswersArray
           (map (\<lambda>team. (team,
                   if team_id team = ''b''
                   then Some \<lparr>res_selectedAnswer = Some ''Jerry'', res_isCorrect = Some True,
                               res_pointsAwarded = Some 10, res_answerIndex = Some 1\<rparr>
                   else None)) exampleTeams)),
        rankedTeams := leaderboardOf exampleTeams exampleScores,
        error := None,
        loading := False\<rparr>"
proof -
  let ?res = "\<lambda>team. if team = ''b''
             then Some \<lparr>res_selectedAnswer = Some ''Jerry'', res_isCorrect = Some True,
                         res_pointsAwarded = Some 10, res_answerIndex = Some 1\<rparr>
             else None"
  have q: "questionOrder revealGame = Some sixteenQuestions"
    and i0: "0 \<le> currentQuestionIndex revealGame"
    and i1: "currentQuestionIndex revealGame < int (length sixteenQuestions)"
    and f: "find (\<lambda>q. question_id q = sixteenQuestions ! nat (currentQuestionIndex revealGame))
              (questions revealGame) = Some exampleQuestion"
    by (simp_all add: revealGame_def gameAt_def sixteenQuestions_def exampleQuestion_def)
  have t: "getTeamsForGame exampleFetches ''KVIZ42'' = Inr exampleTeams"
    and s: "getAllScoresForGame exampleFetches ''KVIZ42'' = Inr exampleScores"
    by (simp_all add: exampleFetches_def)
  have a: "\<And>team. getTeamAnswerResult exampleFetches ''KVIZ42''
        (sixteenQuestions ! nat (currentQuestionIndex revealGame)) team = Inr (?res team)"
    by (simp add: exampleFetches_def)
  have act: "filter (\<lambda>team. isActive team \<noteq> Some False) exampleTeams = exampleTeams"
    by (simp add: exampleTeams_def)
  have l: "(currentQuestionIndex revealGame \<ge> int (length sixteenQuestions) - 1) = False"
    by (simp add: revealGame_def gameAt_def sixteenQuestions_def)
  show ?thesis
    by (simp only: processAndFetchData_fulfilled [OF q i0 i1 f t a s] fst_conv act l)
qed

section \<open>The gate of the aggregation pass\<close>

lemma revealEffect_delivered:
  assumes "truthy (gameCode pg)" and "\<not> gameLoading pg" and "gameError pg = None"
    and "game pg = Some g"
  shows "revealEffect fx lc pg =
     (if status g \<noteq> answer_reveal \<or> resultsReady g \<noteq> Some True
      then (pg\<lparr>loading := (status g = answer_reveal)\<rparr>, ReturnedEarly, [])
      else (fst (processAndFetchData fx lc (the (gameCode pg)) g pg), PassRan,
            snd (processAndFetchData fx lc (the (gameCode pg)) g pg)))"
  using assms by (simp add: revealEffect_def Let_def split: prod.splits)

lemma processAndFetchData_fetches_teams:
  assumes "questionOrder g = Some order"
    and "0 \<le> currentQuestionIndex g" and "currentQuestionIndex g < int (length order)"
    and "find (\<lambda>q. question_id q = order ! nat (currentQuestionIndex g)) (questions g) = Some qd"
  shows "\<exists>calls. snd (processAndFetchData fx lc code g pg) = GetTeamsForGame code # calls"
  using assms
  by (auto simp: processAndFetchData_def tryBlock_def Let_def split: sum.splits option.splits)

text \<open>
  Claim C5, as the code has it. On a delivered snapshot whose status is not
  \<open>answer_reveal\<close> or whose results are not ready, the effect returns before the pass:
  it makes no fetch, and the displayed rows, ranks and question stay as they were. It
  sets the loading cell to "status is \<open>answer_reveal\<close>". The page then shows the error
  screen when an error message stands; otherwise it shows the spinner exactly when the
  status is \<open>answer_reveal\<close> (the reveal waits for its results), and for every other
  status what it showed before, without a spinner. The pass runs, and fetches are made,
  only when both conditions hold; and then, when the current question is found, the pass
  does fetch, the teams first.
\<close>

theorem reveal_gate:
  assumes "truthy (gameCode pg)" and "\<not> gameLoading pg" and "gameError pg = None"
    and "game pg = Some g"
  shows "(status g \<noteq> answer_reveal \<or> resultsReady g \<noteq> Some True \<longrightarrow>
            revealEffect fx lc pg =
              (pg\<lparr>loading := (status g = answer_reveal)\<rparr>, ReturnedEarly, [])
          \<and> snd (snd (revealEffect fx lc pg)) = []
          \<and> teamAnswers (fst (revealEffect fx lc pg)) = teamAnswers pg
          \<and> rankedTeams (fst (revealEffect fx lc pg)) = rankedTeams pg
          \<and> currentQuestion (fst (revealEffect fx lc pg)) = currentQuestion pg
          \<and> loading (fst (revealEffect fx lc pg)) = (status g = answer_reveal)
          \<and> render (fst (revealEffect fx lc pg)) =
              (if truthy (error pg) then ErrorScreen (the (error pg))
               else if status g = answer_reveal then Spinner
               else if currentQuestion pg \<noteq> None then Board
               else Nothing))
       \<and> ((fst (snd (revealEffect fx lc pg)) = PassRan)
            = (status g = answer_reveal \<and> resultsReady g = Some True))
       \<and> (snd (snd (revealEffect fx lc pg)) \<noteq> [] \<longrightarrow>
            status g = answer_reveal \<and> resultsReady g = Some True)
       \<and> (status g = answer_reveal \<and> resultsReady g = Some True
          \<and> (\<exists>order qd. questionOrder g = Some order
                \<and> 0 \<le> currentQuestionIndex g \<and> currentQuestionIndex g < int (length order)
                \<and> find (\<lambda>q. question_id q = order ! nat (currentQuestionIndex g)) (questions g)
                    = Some qd) \<longrightarrow>
            hd (snd (snd (revealEffect fx lc pg))) = GetTeamsForGame (the (gameCode pg))
          \<and> snd (snd (revealEffect fx lc pg)) \<noteq> [])"
proof -
  note eff = revealEffect_delivered [OF assms, of fx lc]
  have a: "(fst (snd (revealEffect fx lc pg)) = PassRan)
        = (status g = answer_reveal \<and> resultsReady g = Some True)"
    by (simp add: eff)
  have b: "status g \<noteq> answer_reveal \<or> resultsReady g \<noteq> Some True \<Longrightarrow>
        revealEffect fx lc pg = (pg\<lparr>loading := (status g = answer_reveal)\<rparr>, ReturnedEarly, [])"
    by (simp add: eff)
  have c: "render (pg\<lparr>loading := (status g = answer_reveal)\<rparr>) =
              (if truthy (error pg) then ErrorScreen (the (error pg))
               else if status g = answer_reveal then Spinner
               else if currentQuestion pg \<noteq> None then Board
               else Nothing)"
    using assms by (simp add: render_def displayError_def truthy_def)
  have d: "snd (snd (revealEffect fx lc pg)) \<noteq> [] \<longrightarrow>
            status g = answer_reveal \<and> resultsReady g = Some True"
    using b by (cases "status g \<noteq> answer_reveal \<or> resultsReady g \<noteq> Some True") auto
  have e: "hd (snd (snd (revealEffect fx lc pg))) = GetTeamsForGame (the (gameCode pg))
          \<and> snd (snd (revealEffect fx lc pg)) \<noteq> []"
    if "status g = answer_reveal \<and> resultsReady g = Some True
          \<and> (\<exists>order qd. questionOrder g = Some order
                \<and> 0 \<le> currentQuestionIndex g \<and> currentQuestionIndex g < int (length order)
                \<and> find (\<lambda>q. question_id q = order ! nat (currentQuestionIndex g)) (questions g)
                    = Some qd)"
  proof -
    from that obtain order qd where q: "questionOrder g = Some order"
      "0 \<le> currentQuestionIndex g" "currentQuestionIndex g < int (length order)"
      "find (\<lambda>q. question_id q = order ! nat (currentQuestionIndex g)) (questions g) = Some qd"
      by blast
    from processAndFetchData_fetches_teams [OF q, of fx lc "the (gameCode pg)" pg]
    obtain calls where "snd (processAndFetchData fx lc (the (gameCode pg)) g pg) =
        GetTeamsForGame (the (gameCode pg)) # calls" ..
    with that show ?thesis by (simp add: eff)
  qed
  show ?thesis
  proof (intro conjI impI)
    assume w: "status g \<noteq> answer_reveal \<or> resultsReady g \<noteq> Some True"
    note r = b [OF w]
    show "revealEffect fx lc pg = (pg\<lparr>loading := (status g = answer_reveal)\<rparr>, ReturnedEarly, [])"
      by (rule r)
    show "snd (snd (revealEffect fx lc pg)) = []" by (simp add: r)
    show "teamAnswers (fst (revealEffect fx lc pg)) = teamAnswers pg" by (simp add: r)
    show "rankedTeams (fst (revealEffect fx lc pg)) = rankedTeams pg" by (simp add: r)
    show "currentQuestion (fst (revealEffect fx lc pg)) = currentQuestion pg" by (simp add: r)
    show "loading (fst (revealEffect fx lc pg)) = (status g = answer_reveal)" by (simp add: r)
    show "render (fst (revealEffect fx lc pg)) =
              (if truthy (error pg) then ErrorScreen (the (error pg))
               else if status g = answer_reveal then Spinner
               else if currentQuestion pg \<noteq> None then Board
               else Nothing)"
      by (simp only: r fst_conv c)
  next
    show "(fst (snd (revealEffect fx lc pg)) = PassRan)
        = (status g = answer_reveal \<and> resultsReady g = Some True)"
      by (rule a)
  next
    assume "snd (snd (revealEffect fx lc pg)) \<noteq> []"
    with d show "status g = answer_reveal" and "resultsReady g = Some True" by blast+
  next
    assume h: "status g = answer_reveal \<and> resultsReady g = Some True
          \<and> (\<exists>order qd. questionOrder g = Some order
                \<and> 0 \<le> currentQuestionIndex g \<and> currentQuestionIndex g < int (length order)
                \<and> find (\<lambda>q. question_id q = order ! nat (currentQuestionIndex g)) (questions g)
                    = Some qd)"
    from e [OF h]
    show "hd (snd (snd (revealEffect fx lc pg))) = GetTeamsForGame (the (gameCode pg))"
      and "snd (snd (revealEffect fx lc pg)) \<noteq> []"
      by blast+
  qed
qed

theorem reveal_gate_witness:
  "truthy (gameCode freshPageInQuestion)
   \<and> \<not> gameLoading freshPageInQuestion
   \<and> gameError freshPageInQuestion = None
   \<and> map_option status (game freshPageInQuestion) = Some question_display
   \<and> fst (snd (revealEffect exampleFetches codeOrderCompare freshPageInQuestion)) = ReturnedEarly
   \<and> snd (snd (revealEffect exampleFetches codeOrderCompare freshPageInQuestion)) = []
   \<and> loading (fst (revealEffect exampleFetches codeOrderCompare freshPageInQuestion)) = False
   \<and> map_option resultsReady (game (pageOf waitingGame)) = Some (Some False)
   \<and> render (fst (revealEffect exampleFetches codeOrderCompare (pageOf waitingGame))) = Spinner
   \<and> fst (snd (revealEffect exampleFetches codeOrderCompare (pageOf revealGame))) = PassRan
   \<and> hd (snd (snd (revealEffect exampleFetches codeOrderCompare (pageOf revealGame))))
       = GetTeamsForGame ''KVIZ42''
   \<and> length (snd (snd (revealEffect exampleFetches codeOrderCompare (pageOf revealGame)))) = 6
   \<and> render (fst (revealEffect exampleFetches codeOrderCompare (pageOf revealGame))) = Board"
proof -
  let ?g = "(gameAt 2)\<lparr>status := question_display, resultsReady := Some False\<rparr>"
  have h1: "truthy (gameCode freshPageInQuestion)"
    by (simp add: freshPageInQuestion_def pageOf_def truthy_def)
  have h2: "\<not> gameLoading freshPageInQuestion"
    by (simp add: freshPageInQuestion_def pageOf_def)
  have h3: "gameError freshPageInQuestion = None"
    by (simp add: freshPageInQuestion_def pageOf_def)
  have h4: "game freshPageInQuestion = Some ?g"
    by (simp add: freshPageInQuestion_def pageOf_def)
  have s: "status ?g = question_display" by simp
  have k1: "truthy (gameCode (pageOf g))" for g by (simp add: pageOf_def truthy_def)
  have k2: "\<not> gameLoading (pageOf g)" for g by (simp add: pageOf_def)
  have k3: "gameError (pageOf g) = None" for g by (simp add: pageOf_def)
  have k4: "game (pageOf g) = Some g" for g by (simp add: pageOf_def)
  have wg: "status waitingGame = answer_reveal" "resultsReady waitingGame = Some False"
    by (simp_all add: waitingGame_def revealGame_def gameAt_def)
  have we: "\<not> truthy (error (pageOf waitingGame))" by (simp add: pageOf_def truthy_def)
  have rg: "status revealGame = answer_reveal \<and> resultsReady revealGame = Some True"
    by (simp add: revealGame_def gameAt_def)
  have rq: "\<exists>order qd. questionOrder revealGame = Some order
       \<and> 0 \<le> currentQuestionIndex revealGame \<and> currentQuestionIndex revealGame < int (length order)
       \<and> find (\<lambda>q. question_id q = order ! nat (currentQuestionIndex revealGame))
            (questions revealGame) = Some qd"
    by (simp add: revealGame_def gameAt_def sixteenQuestions_def exampleQuestion_def)
  have code: "the (gameCode (pageOf revealGame)) = ''KVIZ42''" by (simp add: pageOf_def)
  from reveal_gate [OF h1 h2 h3 h4, of exampleFetches codeOrderCompare] s
  have a1: "fst (snd (revealEffect exampleFetches codeOrderCompare freshPageInQuestion)) = ReturnedEarly"
    and a2: "snd (snd (revealEffect exampleFetches codeOrderCompare freshPageInQuestion)) = []"
    and a3: "loading (fst (revealEffect exampleFetches codeOrderCompare freshPageInQuestion)) = False"
    by simp_all
  have b0: "status waitingGame \<noteq> answer_reveal \<or> resultsReady waitingGame \<noteq> Some True"
    by (simp add: wg)
  from reveal_gate [OF k1 k2 k3 k4, of waitingGame exampleFetches codeOrderCompare] b0
  have "render (fst (revealEffect exampleFetches codeOrderCompare (pageOf waitingGame))) =
      (if truthy (error (pageOf waitingGame)) then ErrorScreen (the (error (pageOf waitingGame)))
       else if status waitingGame = answer_reveal then Spinner
       else if currentQuestion (pageOf waitingGame) \<noteq> None then Board
       else Nothing)"
    by blast
  with wg we
  have b1: "render (fst (revealEffect exampleFetches codeOrderCompare (pageOf waitingGame))) = Spinner"
    by simp
  from reveal_gate [OF k1 k2 k3 k4, of revealGame exampleFetches codeOrderCompare] rg rq
  have c1: "fst (snd (revealEffect exampleFetches codeOrderCompare (pageOf revealGame))) = PassRan"
    and c2: "hd (snd (snd (revealEffect exampleFetches codeOrderCompare (pageOf revealGame))))
       = GetTeamsForGame ''KVIZ42''"
    by (simp_all add: code)
  have eff: "revealEffect exampleFetches codeOrderCompare (pageOf revealGame) =
      (fst (processAndFetchData exampleFetches codeOrderCompare ''KVIZ42'' revealGame (pageOf revealGame)),
       PassRan,
       snd (processAndFetchData exampleFetches codeOrderCompare ''KVIZ42'' revealGame (pageOf revealGame)))"
    using revealEffect_delivered [OF k1 k2 k3 k4 [of revealGame], of exampleFetches codeOrderCompare] rg
    by (simp add: code)
  have c3: "length (snd (snd (revealEffect exampleFetches codeOrderCompare (pageOf revealGame)))) = 6"
    by (simp add: eff examplePass_calls)
  have "render (fst (processAndFetchData exampleFetches codeOrderCompare ''KVIZ42'' revealGame
                       (pageOf revealGame))) = Board"
    by (simp only: examplePass_page) (simp add: render_def displayError_def truthy_def pageOf_def)
  then have c4: "render (fst (revealEffect exampleFetches codeOrderCompare (pageOf revealGame))) = Board"
    by (simp only: eff fst_conv)
  have d: "map_option resultsReady (game (pageOf waitingGame)) = Some (Some False)"
    by (simp add: k4 wg)
  from h1 h2 h3 h4 a1 a2 a3 b1 c1 c2 c3 c4 d show ?thesis by simp
qed

text \<open>
  The claim as stated fails: the fresh page that receives a \<open>question_display\<close> snapshot
  does not run the pass, and it does not show the loading indicator either: the effect
  clears the loading cell, and the page renders nothing.
\<close>

theorem reveal_gate_counterexample:
  "map_option status (game freshPageInQuestion) = Some question_display
   \<and> truthy (gameCode freshPageInQuestion)
   \<and> \<not> gameLoading freshPageInQuestion
   \<and> gameError freshPageInQuestion = None
   \<and> loading freshPageInQuestion
   \<and> fst (snd (revealEffect exampleFetches codeOrderCompare freshPageInQuestion)) = ReturnedEarly
   \<and> render (fst (revealEffect exampleFetches codeOrderCompare freshPageInQuestion)) = Nothing
   \<and> render (fst (revealEffect exampleFetches codeOrderCompare freshPageInQuestion)) \<noteq> Spinner"
  by (simp add: freshPageInQuestion_def pageOf_def gameAt_def revealEffect_def truthy_def
      render_def displayError_def Let_def)

section \<open>Stability of the sort\<close>

lemma consistent_cmp_sym0: "consistent_cmp cmp \<Longrightarrow> cmp a b = 0 \<Longrightarrow> cmp b a = 0"
  unfolding consistent_cmp_def by (metis less_irrefl linorder_neqE_linordered_idom)

lemma filter_insert_by_same:
  assumes "consistent_cmp cmp" and "cmp k x = 0"
  shows "filter (\<lambda>y. cmp k y = 0) (insert_by cmp x ys) = x # filter (\<lambda>y. cmp k y = 0) ys"
proof (induction ys)
  case Nil
  with assms(2) show ?case by simp
next
  case (Cons y ys)
  show ?case
  proof (cases "cmp x y \<le> 0")
    case True
    with assms(2) show ?thesis by simp
  next
    case False
    have "cmp k y \<noteq> 0"
    proof
      assume "cmp k y = 0"
      moreover have "cmp x k = 0" using assms by (rule consistent_cmp_sym0)
      ultimately have "cmp x y \<le> 0"
        using consistent_cmp_trans [OF assms(1), of x k y] by simp
      with False show False by simp
    qed
    with False Cons.IH show ?thesis by simp
  qed
qed

lemma filter_insert_by_other:
  "cmp k x \<noteq> 0 \<Longrightarrow>
   filter (\<lambda>y. cmp k y = 0) (insert_by cmp x ys) = filter (\<lambda>y. cmp k y = 0) ys"
  by (induction ys) auto

lemma js_sort_stable:
  "consistent_cmp cmp \<Longrightarrow>
   filter (\<lambda>y. cmp k y = 0) (js_sort cmp xs) = filter (\<lambda>y. cmp k y = 0) xs"
  by (induction xs) (auto simp: filter_insert_by_same filter_insert_by_other)

lemma sorted_wrt_partition:
  assumes "sorted_wrt R xs" and "\<And>a b. R a b \<Longrightarrow> P b \<Longrightarrow> P a"
  shows "xs = filter P xs @ filter (\<lambda>x. \<not> P x) xs"
  using assms(1)
proof (induction xs)
  case Nil
  then show ?case by simp
next
  case (Cons x xs)
  then have IH: "xs = filter P xs @ filter (\<lambda>x. \<not> P x) xs" by simp
  show ?case
  proof (cases "P x")
    case True
    with IH show ?thesis by simp
  next
    case False
    from Cons.prems have "\<forall>y \<in> set xs. R x y" by simp
    with False assms(2) have "\<forall>y \<in> set xs. \<not> P y" by blast
    then have "filter P xs = []" and "filter (\<lambda>x. \<not> P x) xs = xs"
      by (simp_all add: filter_empty_conv filter_id_conv)
    with False show ?thesis by simp
  qed
qed

section \<open>The answer board\<close>

lemma rowCorrect_conv: "(case isCorrect a of None \<Rightarrow> False | Some v \<Rightarrow> v) = rowCorrect a"
  by (simp add: rowCorrect_def split: option.splits)

lemma answerCompare_alt:
  "answerCompare lc a b =
     (if rowCorrect a \<noteq> rowCorrect b then (if rowCorrect b then 1 else - 1)
      else if rowPoints a \<noteq> rowPoints b then rowPoints b - rowPoints a
      else lc (teamName a) (teamName b))"
  by (simp add: answerCompare_def Let_def rowCorrect_conv rowPoints_def)

lemma answerCompare_le: "answerCompare lc a b \<le> 0 \<longleftrightarrow> answerBefore lc a b"
  by (auto simp: answerCompare_alt answerBefore_def)

lemma answerCompare_eq: "answerCompare lc a b = 0 \<longleftrightarrow> sameKeys lc a b"
  by (auto simp: answerCompare_alt sameKeys_def)

lemma consistent_answerCompare:
  assumes "consistent_cmp lc"
  shows "consistent_cmp (answerCompare lc)"
proof -
  have sym: "\<And>x y. (lc x y < 0) = (0 < lc y x)"
    using assms by (simp add: consistent_cmp_def)
  have tr: "\<And>x y z. lc x y \<le> 0 \<Longrightarrow> lc y z \<le> 0 \<Longrightarrow> lc x z \<le> 0"
    using assms by (rule consistent_cmp_trans)
  have a: "(answerCompare lc a b < 0) = (0 < answerCompare lc b a)" for a b
    using sym [of "teamName a" "teamName b"] by (auto simp: answerCompare_alt)
  have b: "answerCompare lc a c \<le> 0"
    if "answerCompare lc a b \<le> 0" and "answerCompare lc b c \<le> 0" for a b c
    using that tr [of "teamName a" "teamName b" "teamName c"]
    by (auto simp: answerCompare_le answerBefore_def)
  from a b show ?thesis unfolding consistent_cmp_def by blast
qed

lemma consistent_codeOrderCompare: "consistent_cmp codeOrderCompare"
  by (auto simp: consistent_cmp_def codeOrderCompare_def)

text \<open>
  Claim C6. For a collation that is a consistent comparator, the sorted board holds the
  rows of the input; it is ordered by the order of the specification (correct rows
  first, then more points first, then names ascending); the correct rows form a block in
  front of all rows that are incorrect or unanswered; rows with equal keys keep the
  order they had in the input; and the four rows B, A, C, D of the example come out as
  A, B, C, D under every collation that puts A before B and C before D.
\<close>

theorem answer_board_order:
  assumes "consistent_cmp lc"
  shows "mset (sortAnswers lc rows) = mset rows
       \<and> sorted_wrt (answerBefore lc) (sortAnswers lc rows)
       \<and> sortAnswers lc rows =
           filter rowCorrect (sortAnswers lc rows)
             @ filter (\<lambda>r. \<not> rowCorrect r) (sortAnswers lc rows)
       \<and> (\<forall>k. filter (sameKeys lc k) (sortAnswers lc rows) = filter (sameKeys lc k) rows)
       \<and> (lc ''A'' ''B'' < 0 \<and> lc ''C'' ''D'' < 0 \<longrightarrow>
            map teamName (sortAnswers lc exampleRows) = [''A'', ''B'', ''C'', ''D''])"
proof -
  note cons = consistent_answerCompare [OF assms]
  have p1: "mset (sortAnswers lc rows) = mset rows"
    by (simp add: sortAnswers_def mset_js_sort)
  have p2: "sorted_wrt (answerBefore lc) (sortAnswers lc rows)"
    using sorted_js_sort [OF cons, of rows] by (simp add: sortAnswers_def answerCompare_le)
  have p3: "sortAnswers lc rows =
           filter rowCorrect (sortAnswers lc rows)
             @ filter (\<lambda>r. \<not> rowCorrect r) (sortAnswers lc rows)"
    using p2 by (rule sorted_wrt_partition) (auto simp: answerBefore_def)
  have p4: "\<forall>k. filter (sameKeys lc k) (sortAnswers lc rows) = filter (sameKeys lc k) rows"
    using js_sort_stable [OF cons, of _ rows] by (simp add: sortAnswers_def answerCompare_eq)
  have p5: "map teamName (sortAnswers lc exampleRows) = [''A'', ''B'', ''C'', ''D'']"
    if "lc ''A'' ''B'' < 0" and "lc ''C'' ''D'' < 0"
  proof -
    from that(1) assms have "0 < lc ''B'' ''A''" by (simp add: consistent_cmp_def)
    with that show ?thesis
      by (simp add: sortAnswers_def exampleRows_def answerCompare_alt rowCorrect_def rowPoints_def)
  qed
  from p1 p2 p3 p4 p5 show ?thesis by blast
qed

theorem answer_board_order_witness:
  "consistent_cmp codeOrderCompare
   \<and> codeOrderCompare ''A'' ''B'' < 0 \<and> codeOrderCompare ''C'' ''D'' < 0
   \<and> map teamName exampleRows = [''B'', ''A'', ''C'', ''D'']
   \<and> map teamName (sortAnswers codeOrderCompare exampleRows) = [''A'', ''B'', ''C'', ''D'']
   \<and> sorted_wrt (answerBefore codeOrderCompare) (sortAnswers codeOrderCompare exampleRows)"
proof -
  have h: "consistent_cmp codeOrderCompare" by (rule consistent_codeOrderCompare)
  have ab: "codeOrderCompare ''A'' ''B'' < 0" and cd: "codeOrderCompare ''C'' ''D'' < 0"
    by (simp_all add: codeOrderCompare_def)
  have i: "map teamName exampleRows = [''B'', ''A'', ''C'', ''D'']"
    by (simp add: exampleRows_def)
  from answer_board_order [OF h, of exampleRows] ab cd i h show ?thesis by blast
qed

section \<open>Rows of the answer board\<close>

lemma length_sortAnswers: "length (sortAnswers lc rows) = length rows"
  by (simp add: sortAnswers_def length_js_sort)

lemma set_sortAnswers: "set (sortAnswers lc rows) = set rows"
  by (simp add: sortAnswers_def set_js_sort)

text \<open>
  Claim C7. The board has one row per fetched (team, result) pair. The row of a team
  without a result has \<open>isCorrect\<close> \<^verbatim>\<open>null\<close>, 0 points, answer index -1 and the text
  \<^verbatim>\<open>nije odgovoreno\<close>; the row of a team with a result carries the result's selected
  answer, correctness, points and answer index as they are.
\<close>

theorem answer_rows:
  assumes "(team, result) \<in> set teamResults"
  shows "length (sortAnswers lc (processedAnswersArray teamResults)) = length teamResults
       \<and> (\<exists>row \<in> set (sortAnswers lc (processedAnswersArray teamResults)).
            row = teamAnswerDisplay (team, result)
          \<and> teamId row = team_id team
          \<and> (result = None \<longrightarrow>
                isCorrect row = None \<and> pointsAwarded row = Some 0
              \<and> answerIndex row = Some (- 1)
              \<and> selectedAnswer row = Some ''nije odgovoreno'')
          \<and> (\<forall>r. result = Some r \<longrightarrow>
                selectedAnswer row = res_selectedAnswer r
              \<and> isCorrect row = res_isCorrect r
              \<and> pointsAwarded row = res_pointsAwarded r
              \<and> answerIndex row = res_answerIndex r))"
proof -
  let ?row = "teamAnswerDisplay (team, result)"
  have len: "length (sortAnswers lc (processedAnswersArray teamResults)) = length teamResults"
    by (simp add: length_sortAnswers processedAnswersArray_def)
  from assms have mem: "?row \<in> set (sortAnswers lc (processedAnswersArray teamResults))"
    by (auto simp: set_sortAnswers processedAnswersArray_def)
  have id: "teamId ?row = team_id team"
    by (simp add: teamAnswerDisplay_def split: option.splits)
  have none: "result = None \<longrightarrow>
                isCorrect ?row = None \<and> pointsAwarded ?row = Some 0
              \<and> answerIndex ?row = Some (- 1)
              \<and> selectedAnswer ?row = Some ''nije odgovoreno''"
    by (simp add: teamAnswerDisplay_def)
  have some: "\<forall>r. result = Some r \<longrightarrow>
                selectedAnswer ?row = res_selectedAnswer r
              \<and> isCorrect ?row = res_isCorrect r
              \<and> pointsAwarded ?row = res_pointsAwarded r
              \<and> answerIndex ?row = res_answerIndex r"
    by (simp add: teamAnswerDisplay_def)
  from len mem id none some show ?thesis by blast
qed

theorem answer_rows_witness:
  "(exampleTeams ! 0, None) \<in> set exampleTeamResults
   \<and> length (sortAnswers codeOrderCompare (processedAnswersArray exampleTeamResults)) = 2
   \<and> teamAnswerDisplay (exampleTeams ! 0, None)
       \<in> set (sortAnswers codeOrderCompare (processedAnswersArray exampleTeamResults))
   \<and> teamAnswerDisplay (exampleTeams ! 0, None) =
       \<lparr>teamId = ''a'', teamName = ''Lavovi'', selectedAnswer = Some ''nije odgovoreno'',
        isCorrect = None, pointsAwarded = Some 0, answerIndex = Some (- 1)\<rparr>
   \<and> map teamId (sortAnswers codeOrderCompare (processedAnswersArray exampleTeamResults)) =
       [''b'', ''a'']"
proof -
  have h: "(exampleTeams ! 0, None) \<in> set exampleTeamResults"
    by (simp add: exampleTeamResults_def)
  have l: "length exampleTeamResults = 2" by (simp add: exampleTeamResults_def)
  have r: "teamAnswerDisplay (exampleTeams ! 0, None) =
       \<lparr>teamId = ''a'', teamName = ''Lavovi'', selectedAnswer = Some ''nije odgovoreno'',
        isCorrect = None, pointsAwarded = Some 0, answerIndex = Some (- 1)\<rparr>"
    by (simp add: teamAnswerDisplay_def exampleTeams_def displayName_def)
  have s: "map teamId (sortAnswers codeOrderCompare (processedAnswersArray exampleTeamResults)) =
       [''b'', ''a'']"
    by (simp add: sortAnswers_def processedAnswersArray_def exampleTeamResults_def
        teamAnswerDisplay_def exampleTeams_def displayName_def answerCompare_alt
        rowCorrect_def rowPoints_def)
  from answer_rows [OF h, of codeOrderCompare] h l r s show ?thesis by auto
qed

section \<open>The correct-answer text\<close>

lemma derivedCorrectAnswerText_free_text:
  "category q = ''Pogodite crtani'' \<Longrightarrow>
   derivedCorrectAnswerText (Some q) =
     (if truthy (correctAnswer q) then correctAnswer q else Some missingAnswerText)"
  by (simp add: derivedCorrectAnswerText_def)

lemma derivedCorrectAnswerText_option:
  "category q \<noteq> ''Pogodite crtani'' \<Longrightarrow> options q = Some os \<Longrightarrow>
   correctAnswerIndex q = Some i \<Longrightarrow> 0 \<le> i \<Longrightarrow> i < int (length os) \<Longrightarrow>
   derivedCorrectAnswerText (Some q) = Some (os ! nat i)"
  by (simp add: derivedCorrectAnswerText_def js_index_def)

lemma derivedCorrectAnswerText_fallback:
  "category q \<noteq> ''Pogodite crtani'' \<Longrightarrow>
   options q = None \<or> correctAnswerIndex q = None \<or> (\<exists>i < 0. correctAnswerIndex q = Some i) \<Longrightarrow>
   derivedCorrectAnswerText (Some q) =
     (if truthy (correctAnswer q) then correctAnswer q else Some ''N/A'')"
  by (auto simp: derivedCorrectAnswerText_def)

text \<open>
  Claim C8 at a multiple-choice question whose index is beyond its options: the text is
  \<^verbatim>\<open>undefined\<close>. It is neither an option, nor the question's \<open>correctAnswer\<close>, nor
  \<^verbatim>\<open>N/A\<close>: the branch that reads \<^verbatim>\<open>options[correctAnswerIndex]\<close> checks that the index is
  not negative, but not that it is below the number of options.
\<close>

theorem correct_answer_text_out_of_range:
  "category outOfRangeQuestion \<noteq> ''Pogodite crtani''
   \<and> options outOfRangeQuestion = Some [''Tom'', ''Jerry'']
   \<and> correctAnswerIndex outOfRangeQuestion = Some 2
   \<and> correctAnswer outOfRangeQuestion = Some ''Jerry''
   \<and> derivedCorrectAnswerText (Some outOfRangeQuestion) = None"
  by (simp add: outOfRangeQuestion_def derivedCorrectAnswerText_def js_index_def)

end
